theory Spec2Isabelle
  imports Complex_Main
begin

section \<open>Python values\<close>

text \<open>
  The program (\<^verbatim>\<open>src/clean_transactions.py\<close>) reads one JSON document per line, pulls
  ten fields out of every event, and cleans the resulting table with pandas. The cells of
  the table are the Python objects that \<^verbatim>\<open>json.loads\<close> produced, so one datatype stands
  for both the raw events and the cells:
  \<^item> \<open>PNone\<close> is \<^verbatim>\<open>None\<close>;
  \<^item> \<open>PInt\<close> is Python's unbounded \<^verbatim>\<open>int\<close>;
  \<^item> \<open>PFloat r\<close> is the \<^verbatim>\<open>float\<close> whose \<^verbatim>\<open>repr\<close> is the string \<open>r\<close> (\<open>''5.0''\<close>,
    \<open>''1e-05''\<close>, \<open>''nan''\<close>, \<open>''inf''\<close>): the program only ever prints, compares and
    null-tests the raw values, and \<^verbatim>\<open>repr\<close> determines all three;
  \<^item> \<open>PStr\<close> is \<^verbatim>\<open>str\<close>, a list of 8-bit characters here (ASCII text);
  \<^item> \<open>PDict\<close> is a \<^verbatim>\<open>dict\<close> with string keys, an association list read with \<open>map_of\<close>
    (each key is expected at most once).
\<close>

datatype pyval =
    PNone
  | PBool bool
  | PInt int
  | PFloat string
  | PStr string
  | PList "pyval list"
  | PDict "(string \<times> pyval) list"

datatype py_error =
    AttributeError string  \<comment> \<open>the type name of the object that has no attribute \<^verbatim>\<open>get\<close>\<close>
  | TypeError
  | ValueError

fun type_name :: "pyval \<Rightarrow> string" where
  "type_name PNone = ''NoneType''"
| "type_name (PBool b) = ''bool''"
| "type_name (PInt i) = ''int''"
| "type_name (PFloat r) = ''float''"
| "type_name (PStr s) = ''str''"
| "type_name (PList xs) = ''list''"
| "type_name (PDict kvs) = ''dict''"

fun is_dict :: "pyval \<Rightarrow> bool" where
  "is_dict (PDict kvs) = True"
| "is_dict v = False"

fun is_list :: "pyval \<Rightarrow> bool" where
  "is_list (PList xs) = True"
| "is_list v = False"

text \<open>\<^verbatim>\<open>str(e)\<close> of an exception, as the f-string of the error log formats it. Only
  \<^verbatim>\<open>AttributeError\<close> can reach the log; the other two stand for their names.\<close>

fun error_text :: "py_error \<Rightarrow> string" where
  "error_text (AttributeError ty) = [CHR 0x27] @ ty @ [CHR 0x27] @ '' object has no attribute '' @ [CHR 0x27] @ ''get'' @ [CHR 0x27]"
| "error_text TypeError = ''TypeError''"
| "error_text ValueError = ''ValueError''"

section \<open>Field extraction\<close>

text \<open>
  \<^verbatim>\<open>obj.get(key, default)\<close>: a dictionary answers with the value stored under the key, or
  with the default when the key is missing; any other object has no method \<^verbatim>\<open>get\<close> and
  the call raises \<^verbatim>\<open>AttributeError\<close>.
\<close>

fun py_get :: "pyval \<Rightarrow> string \<Rightarrow> pyval \<Rightarrow> py_error + pyval" where
  "py_get (PDict kvs) k d = Inr (case map_of kvs k of None \<Rightarrow> d | Some v \<Rightarrow> v)"
| "py_get v k d = Inl (AttributeError (type_name v))"

text \<open>
  A chain \<^verbatim>\<open>obj.get(k1, d1).get(k2, d2)...\<close>, evaluated left to right; the first call that
  raises ends the chain.
\<close>

fun get_chain :: "pyval \<Rightarrow> (string \<times> pyval) list \<Rightarrow> py_error + pyval" where
  "get_chain v [] = Inr v"
| "get_chain v ((k, d) # ps) =
     (case py_get v k d of Inl e \<Rightarrow> Inl e | Inr w \<Rightarrow> get_chain w ps)"

text \<open>Sequencing of two computations that may raise.\<close>

fun and_then :: "py_error + 'a \<Rightarrow> ('a \<Rightarrow> py_error + 'b) \<Rightarrow> py_error + 'b" where
  "and_then (Inl e) f = Inl e"
| "and_then (Inr x) f = f x"

text \<open>The flat record of lines 35--46, with the source's keys in the source's order.\<close>

record txn =
  order_id :: pyval
  customer_email :: pyval
  payment_id :: pyval
  amount :: pyval
  currency :: pyval
  created_at :: pyval
  flags :: pyval
  payment_ref :: pyval
  payment_provider :: pyval
  payment_status :: pyval

abbreviation empty_dict :: pyval where
  "empty_dict \<equiv> PDict []"

definition event_type_of :: "pyval \<Rightarrow> py_error + pyval" where
  "event_type_of record = get_chain record [(''event'', empty_dict), (''type'', PNone)]"

text \<open>
  One round of the loop body (lines 32--47): \<open>Inl\<close> when a lookup raises, \<open>Inr None\<close>
  when the event is a heartbeat and the loop continues without a record, \<open>Inr (Some t)\<close>
  when the record \<open>t\<close> is appended. The entries of the dictionary literal are evaluated
  in order.
\<close>

definition extract_record :: "pyval \<Rightarrow> py_error + txn option" where
  "extract_record record =
     and_then (event_type_of record) (\<lambda>event_type.
     if event_type = PStr ''heartbeat'' then Inr None else
     and_then (get_chain record [(''entity'', empty_dict), (''order'', empty_dict), (''id'', PNone)]) (\<lambda>v1.
     and_then (get_chain record [(''entity'', empty_dict), (''customer'', empty_dict), (''email'', PNone)]) (\<lambda>v2.
     and_then (get_chain record [(''entity'', empty_dict), (''payment'', empty_dict), (''id'', PNone)]) (\<lambda>v3.
     and_then (get_chain record [(''payload'', empty_dict), (''Amount'', PNone)]) (\<lambda>v4.
     and_then (get_chain record [(''entity'', empty_dict), (''payload'', empty_dict), (''Currency'', PStr ''USD'')]) (\<lambda>v5.
     and_then (get_chain record [(''event'', empty_dict), (''ts'', PNone)]) (\<lambda>v6.
     and_then (get_chain record [(''payload'', empty_dict), (''flags'', PList [])]) (\<lambda>v7.
     and_then (get_chain record [(''entity'', empty_dict), (''payment'', empty_dict), (''provider_ref'', PNone)]) (\<lambda>v8.
     and_then (get_chain record [(''entity'', empty_dict), (''payment'', empty_dict), (''provider'', PNone)]) (\<lambda>v9.
     and_then (get_chain record [(''payload'', empty_dict), (''status'', PNone)]) (\<lambda>v10.
     Inr (Some \<lparr>order_id = v1, customer_email = v2, payment_id = v3, amount = v4,
                 currency = v5, created_at = v6, flags = v7, payment_ref = v8,
                 payment_provider = v9, payment_status = v10\<rparr>))))))))))))"

text \<open>The loop of lines 30--48 over the batch, with the list built so far.\<close>

fun extract_loop :: "pyval list \<Rightarrow> txn list \<Rightarrow> py_error + txn list" where
  "extract_loop [] relevant_datafile = Inr relevant_datafile"
| "extract_loop (record # data) relevant_datafile =
     (case extract_record record of
        Inl e \<Rightarrow> Inl e
      | Inr None \<Rightarrow> extract_loop data relevant_datafile
      | Inr (Some relevant_data) \<Rightarrow> extract_loop data (relevant_datafile @ [relevant_data]))"

datatype level = INFO | WARNING | ERROR

text \<open>
  \<^verbatim>\<open>getting_relevant_data\<close> (lines 28--50). The \<^verbatim>\<open>try\<close> wraps the whole loop: an
  exception in any round is caught, one line is written to the error log, and the
  function falls off its end, which returns \<^verbatim>\<open>None\<close>. The result pairs the log lines
  written with the value returned.
\<close>

definition getting_relevant_data :: "pyval list \<Rightarrow> (level \<times> string) list \<times> txn list option" where
  "getting_relevant_data data =
     (case extract_loop data [] of
        Inr relevant_datafile \<Rightarrow> ([], Some relevant_datafile)
      | Inl e \<Rightarrow> ([(ERROR, ''Error extracting relevant data: '' @ error_text e)], None))"

section \<open>Strings\<close>

definition is_digit :: "char \<Rightarrow> bool" where
  "is_digit c = (c \<in> set ''0123456789'')"

definition is_space :: "char \<Rightarrow> bool" where
  "is_space c = (c \<in> set [CHR '' '', CHR 0x09, CHR 0x0A, CHR 0x0B, CHR 0x0C, CHR 0x0D])"

fun starts_with :: "string \<Rightarrow> string \<Rightarrow> bool" where
  "starts_with [] s = True"
| "starts_with (p # ps) [] = False"
| "starts_with (p # ps) (c # cs) = (p = c \<and> starts_with ps cs)"

text \<open>\<^verbatim>\<open>pat in s\<close> on strings: \<open>pat\<close> occurs in \<open>s\<close> as a contiguous substring.\<close>

fun py_in :: "string \<Rightarrow> string \<Rightarrow> bool" where
  "py_in pat [] = (pat = [])"
| "py_in pat (c # cs) = (starts_with pat (c # cs) \<or> py_in pat cs)"

text \<open>\<^verbatim>\<open>sep.join(items)\<close> on a list of strings.\<close>

fun join :: "string \<Rightarrow> string list \<Rightarrow> string" where
  "join sep [] = []"
| "join sep [s] = s"
| "join sep (s # t # ss) = s @ sep @ join sep (t # ss)"

fun nat_digits :: "nat \<Rightarrow> string" where
  "nat_digits n =
     (if n < 10 then [''0123456789'' ! n]
      else nat_digits (n div 10) @ [''0123456789'' ! (n mod 10)])"

declare nat_digits.simps [simp del]

definition int_str :: "int \<Rightarrow> string" where
  "int_str i = (if i < 0 then CHR ''-'' # nat_digits (nat (- i)) else nat_digits (nat i))"

text \<open>
  \<^verbatim>\<open>repr\<close> and \<^verbatim>\<open>str\<close>. They differ on strings only. A string inside a list or a
  dictionary is printed between single quotes as it stands, which is Python's \<^verbatim>\<open>repr\<close>
  for a string without quotes, backslashes and control characters.
\<close>

fun py_repr :: "pyval \<Rightarrow> string" where
  "py_repr PNone = ''None''"
| "py_repr (PBool b) = (if b then ''True'' else ''False'')"
| "py_repr (PInt i) = int_str i"
| "py_repr (PFloat r) = r"
| "py_repr (PStr s) = [CHR 0x27] @ s @ [CHR 0x27]"
| "py_repr (PList xs) = ''['' @ join '', '' (map py_repr xs) @ '']''"
| "py_repr (PDict kvs) =
     ''{'' @ join '', '' (map (\<lambda>kv. [CHR 0x27] @ fst kv @ [CHR 0x27] @ '': '' @ py_repr (snd kv)) kvs) @ ''}''"

fun py_str :: "pyval \<Rightarrow> string" where
  "py_str (PStr s) = s"
| "py_str v = py_repr v"

text \<open>\<^verbatim>\<open>s.strip()\<close>: leading and trailing whitespace removed.\<close>

definition py_strip :: "string \<Rightarrow> string" where
  "py_strip s = rev (dropWhile is_space (rev (dropWhile is_space s)))"

section \<open>The table\<close>

text \<open>
  A DataFrame is the list of its rows, in index order. The index is the \<^verbatim>\<open>RangeIndex\<close>
  of the constructor (line 56) and every step keeps a subset of the rows, so labels are
  unique and dropping by label (lines 110--111) is dropping the rows themselves. A column
  is read as the Python objects it holds (\<^verbatim>\<open>object\<close> dtype); pandas stores a column of
  numbers alone as \<^verbatim>\<open>int64\<close> or \<^verbatim>\<open>float64\<close>, which is a table whose cells in that
  column are all \<open>PInt\<close> or all \<open>PFloat\<close>. The functions below take the table as they
  are given it; the constructor call of line 56 and the reading and writing of files are
  not part of the model. The warnings and notices that the cleaning steps write to the
  log change no value and are left out.

  pandas itself refuses some tables that hold cells of an unexpected type, such as the
  \<^verbatim>\<open>.str\<close> accessor on a column that holds numbers only. Apart from the errors written
  out below, the model goes on where pandas would stop, so the properties that speak of
  a completed run cover every run that completes in pandas.

  \<^verbatim>\<open>pd.isna\<close> on a cell: \<^verbatim>\<open>None\<close> and the float NaN are the null values.
\<close>

definition isna :: "pyval \<Rightarrow> bool" where
  "isna v = (v = PNone \<or> v = PFloat ''nan'')"

text \<open>
  \<^verbatim>\<open>clean_transactions\<close> (lines 60--67): detect, then drop, rows with a null
  \<^verbatim>\<open>order_id\<close>, then rows with a null \<^verbatim>\<open>payment_id\<close>.
\<close>

definition clean_transactions :: "('a txn_scheme) list \<Rightarrow> ('a txn_scheme) list" where
  "clean_transactions df =
     (let df = (if \<exists>r \<in> set df. isna (order_id r)
                then filter (\<lambda>r. \<not> isna (order_id r)) df else df);
          df = (if \<exists>r \<in> set df. isna (payment_id r)
                then filter (\<lambda>r. \<not> isna (payment_id r)) df else df)
      in df)"

section \<open>Amount normalisation\<close>

text \<open>
  The \<^verbatim>\<open>float64\<close> column \<^verbatim>\<open>amount_usd\<close>. A cell is NaN or a number. The model keeps
  the exact decimal value where \<^verbatim>\<open>float64\<close> keeps the nearest binary floating-point
  value, so rounding is left out: the amounts of the specification's examples (5.00,
  10.00, 12.50, 25.00) are the same numbers in both, and so is the sign of every amount
  that \<^verbatim>\<open>float64\<close> neither overflows nor underflows (fewer than 300 digits).
\<close>

datatype float64 = NaN | Num rat

fun fdiv :: "float64 \<Rightarrow> rat \<Rightarrow> float64" where
  "fdiv NaN d = NaN"
| "fdiv (Num q) d = Num (q / d)"

fun fgt :: "float64 \<Rightarrow> rat \<Rightarrow> bool" where
  "fgt NaN d = False"
| "fgt (Num q) d = (q > d)"

fun feq :: "float64 \<Rightarrow> rat \<Rightarrow> bool" where
  "feq NaN d = False"
| "feq (Num q) d = (q = d)"

record row = txn +
  amount_usd :: float64

definition with_amount_usd :: "txn \<Rightarrow> float64 \<Rightarrow> row" where
  "with_amount_usd t x = txn.extend t (row.fields x)"

text \<open>
  \<^verbatim>\<open>is_cent\<close> (lines 72--77). It is applied to the cells of \<^verbatim>\<open>amount.astype(str)\<close>,
  which are strings.
\<close>

definition is_cent :: "pyval \<Rightarrow> bool" where
  "is_cent value =
     (if isna value \<or> value = PStr [] then False
      else if py_in ''.'' (py_str value) \<or> py_in ''$'' (py_str value) \<or> py_in ''USD'' (py_str value)
        then False
      else True)"

text \<open>Line 84: the regular expression \<^verbatim>\<open>[^\d.]\<close> matches every character that is neither a
  digit nor a dot, and each match is replaced by the empty string. On the ASCII text of
  the model the digits are \<^verbatim>\<open>0\<close> to \<^verbatim>\<open>9\<close>.\<close>

definition strip_non_numeric :: "string \<Rightarrow> string" where
  "strip_non_numeric s = filter (\<lambda>c. is_digit c \<or> c = CHR ''.'') s"

definition digit_value :: "char \<Rightarrow> nat" where
  "digit_value c = of_char c - 48"

definition digits_nat :: "string \<Rightarrow> nat" where
  "digits_nat ds = foldl (\<lambda>n c. 10 * n + digit_value c) 0 ds"

text \<open>
  \<^verbatim>\<open>float(s)\<close> on a string of digits and dots, which is all that line 84 leaves: the string
  is a numeral when it has a digit and at most one dot (\<^verbatim>\<open>5\<close>, \<^verbatim>\<open>5.\<close>, \<^verbatim>\<open>.5\<close>, \<^verbatim>\<open>12.50\<close>);
  anything else (\<^verbatim>\<open>.\<close>, \<^verbatim>\<open>12.5.0\<close>) raises \<^verbatim>\<open>ValueError\<close>.
\<close>

definition is_numeral :: "string \<Rightarrow> bool" where
  "is_numeral s =
     (list_all (\<lambda>c. is_digit c \<or> c = CHR ''.'') s \<and> list_ex is_digit s
      \<and> length (filter (\<lambda>c. c = CHR ''.'') s) \<le> 1)"

definition decimal_value :: "string \<Rightarrow> rat" where
  "decimal_value s =
     (let ip = takeWhile (\<lambda>c. c \<noteq> CHR ''.'') s;
          fp = drop 1 (dropWhile (\<lambda>c. c \<noteq> CHR ''.'') s)
      in of_nat (digits_nat ip) + of_nat (digits_nat fp) / 10 ^ length fp)"

definition to_float :: "string \<Rightarrow> py_error + float64" where
  "to_float s = (if is_numeral s then Inr (Num (decimal_value s)) else Inl ValueError)"

text \<open>A function applied down a column, in row order; the first cell that raises ends it.\<close>

fun map_err :: "('a \<Rightarrow> py_error + 'b) \<Rightarrow> 'a list \<Rightarrow> py_error + 'b list" where
  "map_err f [] = Inr []"
| "map_err f (x # xs) = and_then (f x) (\<lambda>y. and_then (map_err f xs) (\<lambda>ys. Inr (y # ys)))"

text \<open>
  Lines 83--87 on one cell of \<^verbatim>\<open>amount\<close>: \<^verbatim>\<open>astype(str)\<close> calls \<^verbatim>\<open>str\<close> on the cell
  (in pandas 1 and 2 \<^verbatim>\<open>None\<close> becomes the string \<^verbatim>\<open>None\<close>, which line 84 empties), line
  84 strips it, line 86 turns the empty string into NaN, and \<^verbatim>\<open>astype('float64')\<close>
  parses what is left.
\<close>

definition parse_amount :: "pyval \<Rightarrow> py_error + float64" where
  "parse_amount a =
     (let s = py_strip (strip_non_numeric (py_str a))
      in if s = [] then Inr NaN else to_float s)"

text \<open>
  \<^verbatim>\<open>normalize_amount\<close> (lines 79--95). The new column is built for the whole table
  before any row is dropped, so one cell that is not a numeral raises \<^verbatim>\<open>ValueError\<close>
  for the table; line 89 divides the cells marked as cents; line 92 keeps the rows whose
  \<^verbatim>\<open>amount_usd\<close> is greater than zero, which NaN is not.
\<close>

definition normalize_amount :: "txn list \<Rightarrow> py_error + row list" where
  "normalize_amount df1 =
     (let cents_rep = map (\<lambda>t. is_cent (PStr (py_str (amount t)))) df1
      in and_then (map_err (\<lambda>t. parse_amount (amount t)) df1)
           (\<lambda>floats.
              let divided = map (\<lambda>(c, x). if c then fdiv x 100 else x) (zip cents_rep floats);
                  df1 = map (\<lambda>(t, x). with_amount_usd t x) (zip df1 divided)
              in Inr (filter (\<lambda>r. fgt (amount_usd r) 0) df1)))"

text \<open>The column \<^verbatim>\<open>cents_rep\<close> of line 80 on its own: \<^verbatim>\<open>is_cent\<close> applied to the cells of
  \<^verbatim>\<open>amount.astype(str)\<close>. Its number of true cells is what line 81 writes to the log.\<close>

definition cents_rep :: "txn list \<Rightarrow> bool list" where
  "cents_rep df1 = map (\<lambda>t. is_cent (PStr (py_str (amount t)))) df1"

section \<open>Flags\<close>

text \<open>\<^verbatim>\<open>','.join(x)\<close> raises \<^verbatim>\<open>TypeError\<close> when an item of the list is not a string.\<close>

fun as_strs :: "pyval list \<Rightarrow> string list option" where
  "as_strs [] = Some []"
| "as_strs (PStr s # xs) = map_option (\<lambda>ss. s # ss) (as_strs xs)"
| "as_strs (v # xs) = None"

definition join_flags :: "pyval \<Rightarrow> py_error + pyval" where
  "join_flags x =
     (case x of
        PList xs \<Rightarrow> (case as_strs xs of None \<Rightarrow> Inl TypeError | Some ss \<Rightarrow> Inr (PStr (join '','' ss)))
      | _ \<Rightarrow> Inr x)"

text \<open>\<^verbatim>\<open>extract_flags\<close> (lines 98--101): the lambda applied to every cell of the column.\<close>

definition extract_flags :: "row list \<Rightarrow> py_error + row list" where
  "extract_flags df1 =
     map_err (\<lambda>r. and_then (join_flags (flags r)) (\<lambda>x. Inr (r\<lparr>flags := x\<rparr>))) df1"

section \<open>The filter chain\<close>

text \<open>
  \<^verbatim>\<open>Series.str.contains(pat, na=False)\<close> for a pattern without regular-expression
  operators: true on a string cell that contains the pattern, false on a cell that is
  not a string.
\<close>

fun str_contains :: "string \<Rightarrow> pyval \<Rightarrow> bool" where
  "str_contains pat (PStr s) = py_in pat s"
| "str_contains pat v = False"

definition remove_test_transactions :: "row list \<Rightarrow> row list" where
  "remove_test_transactions df1 =
     (if (\<exists>r \<in> set df1. str_contains ''test'' (flags r)) \<or> (\<exists>r \<in> set df1. str_contains ''sandbox'' (flags r))
      then
        (let df1 = filter (\<lambda>r. \<not> str_contains ''test'' (flags r)) df1;
             df1 = filter (\<lambda>r. \<not> str_contains ''sandbox'' (flags r)) df1
         in df1)
      else df1)"

definition remove_null_amounts :: "row list \<Rightarrow> row list" where
  "remove_null_amounts df1 =
     (if \<exists>r \<in> set df1. amount_usd r = NaN then filter (\<lambda>r. amount_usd r \<noteq> NaN) df1 else df1)"

definition remove_zero_amounts :: "row list \<Rightarrow> row list" where
  "remove_zero_amounts df1 =
     (if \<exists>r \<in> set df1. feq (amount_usd r) 0 then filter (\<lambda>r. \<not> feq (amount_usd r) 0) df1 else df1)"

definition fill_na_flags :: "row list \<Rightarrow> row list" where
  "fill_na_flags df1 =
     (if \<exists>r \<in> set df1. isna (flags r)
      then map (\<lambda>r. if isna (flags r) then r\<lparr>flags := PStr ''normal''\<rparr> else r) df1
      else df1)"

text \<open>\<^verbatim>\<open>Series.isin(['FAILED', 'PENDING'])\<close> on a cell.\<close>

definition failed_or_pending :: "pyval \<Rightarrow> bool" where
  "failed_or_pending v = (v \<in> set [PStr ''FAILED'', PStr ''PENDING''])"

definition drop_failed_pending_payments :: "row list \<Rightarrow> row list" where
  "drop_failed_pending_payments df1 =
     (if \<exists>r \<in> set df1. failed_or_pending (payment_status r)
      then filter (\<lambda>r. \<not> failed_or_pending (payment_status r)) df1
      else df1)"

section \<open>Duplicate rows\<close>

text \<open>
  \<^verbatim>\<open>DataFrame.duplicated\<close> numbers the distinct values of every column by hashing them
  (\<^verbatim>\<open>factorize\<close>) and marks a row whose tuple of numbers has been seen before. Two cells
  get the same number when Python's \<^verbatim>\<open>==\<close> holds between them, and all null cells get
  one number of their own. So \<^verbatim>\<open>1\<close>, \<^verbatim>\<open>1.0\<close> and \<^verbatim>\<open>True\<close> are one value, as are
  \<^verbatim>\<open>None\<close> and NaN. A list or a dictionary cannot be hashed, and \<^verbatim>\<open>factorize\<close> raises
  \<^verbatim>\<open>TypeError\<close> on a column that holds one.

  \<open>float_value r\<close> is the number that the float with \<^verbatim>\<open>repr\<close> \<open>r\<close> stands for
  (\<^verbatim>\<open>-12.5\<close>, \<^verbatim>\<open>1e-05\<close>, \<^verbatim>\<open>2.5e+16\<close>); \<^verbatim>\<open>inf\<close> and \<^verbatim>\<open>nan\<close> have none.
\<close>

definition float_value :: "string \<Rightarrow> rat option" where
  "float_value r =
     (let neg = (take 1 r = ''-'');
          body = (if neg then drop 1 r else r);
          mant = takeWhile (\<lambda>c. c \<noteq> CHR ''e'') body;
          ex = drop 1 (dropWhile (\<lambda>c. c \<noteq> CHR ''e'') body);
          ip = takeWhile (\<lambda>c. c \<noteq> CHR ''.'') mant;
          fp = drop 1 (dropWhile (\<lambda>c. c \<noteq> CHR ''.'') mant);
          eneg = (take 1 ex = ''-'');
          edig = (if take 1 ex = ''-'' \<or> take 1 ex = ''+'' then drop 1 ex else ex);
          m = of_nat (digits_nat ip) + of_nat (digits_nat fp) / 10 ^ length fp;
          v = (if eneg then m / 10 ^ digits_nat edig else m * 10 ^ digits_nat edig)
      in if ip \<noteq> [] \<and> list_all is_digit ip \<and> list_all is_digit fp \<and> list_all is_digit edig
         then Some (if neg then - v else v) else None)"

datatype cell_key = KNull | KNum rat | KObj pyval

definition cell_key :: "pyval \<Rightarrow> cell_key" where
  "cell_key v =
     (if isna v then KNull
      else case v of
          PBool b \<Rightarrow> KNum (if b then 1 else 0)
        | PInt i \<Rightarrow> KNum (of_int i)
        | PFloat r \<Rightarrow> (case float_value r of Some q \<Rightarrow> KNum q | None \<Rightarrow> KObj v)
        | _ \<Rightarrow> KObj v)"

fun hashable :: "pyval \<Rightarrow> bool" where
  "hashable (PList xs) = False"
| "hashable (PDict kvs) = False"
| "hashable v = True"

definition row_cells :: "row \<Rightarrow> pyval list" where
  "row_cells r =
     [order_id r, customer_email r, payment_id r, amount r, currency r, created_at r,
      flags r, payment_ref r, payment_provider r, payment_status r]"

definition row_key :: "row \<Rightarrow> cell_key list \<times> float64" where
  "row_key r = (map cell_key (row_cells r), amount_usd r)"

text \<open>The mask of \<^verbatim>\<open>duplicated()\<close>: true at a row whose key an earlier row has.\<close>

fun duplicated_from :: "'k list \<Rightarrow> 'k list \<Rightarrow> bool list" where
  "duplicated_from seen [] = []"
| "duplicated_from seen (k # ks) = (k \<in> set seen) # duplicated_from (k # seen) ks"

definition duplicated :: "row list \<Rightarrow> bool list" where
  "duplicated df1 = duplicated_from [] (map row_key df1)"

text \<open>\<^verbatim>\<open>drop_duplicates\<close> (lines 132--136); \<^verbatim>\<open>DataFrame.drop_duplicates()\<close> keeps the rows
  that \<^verbatim>\<open>duplicated()\<close> does not mark.\<close>

definition drop_duplicates :: "row list \<Rightarrow> py_error + row list" where
  "drop_duplicates df1 =
     (if \<exists>r \<in> set df1. \<exists>c \<in> set (row_cells r). \<not> hashable c then Inl TypeError
      else if True \<in> set (duplicated df1)
        then Inr (map fst (filter (\<lambda>(r, d). \<not> d) (zip df1 (duplicated df1))))
      else Inr df1)"

section \<open>The pipeline\<close>

text \<open>Lines 145--150: the filter chain, in the order of the source.\<close>

definition filter_chain :: "row list \<Rightarrow> py_error + row list" where
  "filter_chain df1 =
     (let df1 = remove_test_transactions df1;
          df1 = remove_null_amounts df1;
          df1 = remove_zero_amounts df1;
          df1 = drop_failed_pending_payments df1
      in and_then (drop_duplicates df1) (\<lambda>df1. Inr (fill_na_flags df1)))"

text \<open>Lines 69, 103--104 and 145--150: everything that is done to the table \<^verbatim>\<open>df\<close>.\<close>

definition clean_pipeline :: "txn list \<Rightarrow> py_error + row list" where
  "clean_pipeline df =
     and_then (normalize_amount (clean_transactions df)) (\<lambda>df1.
     and_then (extract_flags df1) (\<lambda>df1.
     filter_chain df1))"

section \<open>Notions of the specification\<close>

text \<open>
  The specification speaks of nested paths that are present or absent in a raw event.
  \<open>lookup_path r p\<close> walks the keys of \<open>p\<close> down from \<open>r\<close>; the path is absent when a
  key is missing on the way.
\<close>

fun lookup_path :: "pyval \<Rightarrow> string list \<Rightarrow> pyval option" where
  "lookup_path v [] = Some v"
| "lookup_path (PDict kvs) (k # ks) =
     (case map_of kvs k of None \<Rightarrow> None | Some w \<Rightarrow> lookup_path w ks)"
| "lookup_path v (k # ks) = None"

definition field_or :: "pyval \<Rightarrow> string list \<Rightarrow> pyval \<Rightarrow> pyval" where
  "field_or r p d = (case lookup_path r p of None \<Rightarrow> d | Some v \<Rightarrow> v)"

text \<open>
  A raw event of the specification's data model: a mapping whose attributes \<^verbatim>\<open>event\<close>,
  \<^verbatim>\<open>entity\<close>, \<^verbatim>\<open>payload\<close> and the groups under \<^verbatim>\<open>entity\<close> are mappings where they are
  present. Any of them may be absent, and the leaves may hold anything.
\<close>

definition mapping_or_absent :: "pyval \<Rightarrow> string list \<Rightarrow> bool" where
  "mapping_or_absent r p = (case lookup_path r p of None \<Rightarrow> True | Some v \<Rightarrow> is_dict v)"

definition raw_event_ok :: "pyval \<Rightarrow> bool" where
  "raw_event_ok r =
     (is_dict r \<and>
      list_all (mapping_or_absent r)
        [[''event''], [''entity''], [''payload''], [''entity'', ''order''],
         [''entity'', ''customer''], [''entity'', ''payment''], [''entity'', ''payload'']])"

definition is_heartbeat :: "pyval \<Rightarrow> bool" where
  "is_heartbeat r = (lookup_path r [''event'', ''type''] = Some (PStr ''heartbeat''))"

text \<open>The record that the fixed paths of lines 36--45 select, with the two defaults of
  the source (\<^verbatim>\<open>'USD'\<close> for the currency, the empty list for the flags).\<close>

definition spec_fields :: "pyval \<Rightarrow> txn" where
  "spec_fields r =
     \<lparr>order_id = field_or r [''entity'', ''order'', ''id''] PNone,
      customer_email = field_or r [''entity'', ''customer'', ''email''] PNone,
      payment_id = field_or r [''entity'', ''payment'', ''id''] PNone,
      amount = field_or r [''payload'', ''Amount''] PNone,
      currency = field_or r [''entity'', ''payload'', ''Currency''] (PStr ''USD''),
      created_at = field_or r [''event'', ''ts''] PNone,
      flags = field_or r [''payload'', ''flags''] (PList []),
      payment_ref = field_or r [''entity'', ''payment'', ''provider_ref''] PNone,
      payment_provider = field_or r [''entity'', ''payment'', ''provider''] PNone,
      payment_status = field_or r [''payload'', ''status''] PNone\<rparr>"

section \<open>Sample events and records\<close>

text \<open>A paid order with the given \<^verbatim>\<open>flags\<close> value, a heartbeat, and an order that has
  neither customer, currency, flags nor status.\<close>

definition event_paid :: "pyval \<Rightarrow> pyval" where
  "event_paid fl =
     PDict [(''event'', PDict [(''type'', PStr ''payment''), (''ts'', PStr ''2024-01-01T00:00:00Z'')]),
            (''entity'', PDict [(''order'', PDict [(''id'', PStr ''o-1'')]),
                               (''customer'', PDict [(''email'', PStr ''a@b.c'')]),
                               (''payment'', PDict [(''id'', PStr ''p-1''), (''provider'', PStr ''stripe''),
                                                   (''provider_ref'', PStr ''ch_1'')])]),
            (''payload'', PDict [(''Amount'', PStr ''25.00''), (''status'', PStr ''SUCCESS''), (''flags'', fl)])]"

definition event_heartbeat :: pyval where
  "event_heartbeat = PDict [(''event'', PDict [(''type'', PStr ''heartbeat'')])]"

definition event_bare :: pyval where
  "event_bare =
     PDict [(''event'', PDict [(''type'', PStr ''payment'')]),
            (''entity'', PDict [(''order'', PDict [(''id'', PStr ''o-2'')]),
                               (''payment'', PDict [(''id'', PStr ''p-2'')])]),
            (''payload'', PDict [(''Amount'', PStr ''1000'')])]"

text \<open>An order event whose \<^verbatim>\<open>entity\<close> attribute is present and \<^verbatim>\<open>null\<close>.\<close>

definition event_null_entity :: pyval where
  "event_null_entity =
     PDict [(''event'', PDict [(''type'', PStr ''payment'')]),
            (''entity'', PNone),
            (''payload'', PDict [(''Amount'', PStr ''1000'')])]"

definition record_paid :: "pyval \<Rightarrow> txn" where
  "record_paid fl =
     \<lparr>order_id = PStr ''o-1'', customer_email = PStr ''a@b.c'', payment_id = PStr ''p-1'',
      amount = PStr ''25.00'', currency = PStr ''USD'', created_at = PStr ''2024-01-01T00:00:00Z'',
      flags = fl, payment_ref = PStr ''ch_1'', payment_provider = PStr ''stripe'',
      payment_status = PStr ''SUCCESS''\<rparr>"

definition record_bare :: txn where
  "record_bare =
     \<lparr>order_id = PStr ''o-2'', customer_email = PNone, payment_id = PStr ''p-2'',
      amount = PStr ''1000'', currency = PStr ''USD'', created_at = PNone,
      flags = PList [], payment_ref = PNone, payment_provider = PNone,
      payment_status = PNone\<rparr>"

text \<open>An order event with the given event type, payment id, amount, status and flags.\<close>

definition event_order :: "string \<Rightarrow> pyval \<Rightarrow> pyval \<Rightarrow> pyval \<Rightarrow> pyval \<Rightarrow> pyval" where
  "event_order ty pid amt st fl =
     PDict [(''event'', PDict [(''type'', PStr ty), (''ts'', PStr ''2024-01-01T00:00:00Z'')]),
            (''entity'', PDict [(''order'', PDict [(''id'', PStr ''o-1'')]),
                               (''payment'', PDict [(''id'', pid)])]),
            (''payload'', PDict [(''Amount'', amt), (''status'', st), (''flags'', fl)])]"

definition record_order :: "pyval \<Rightarrow> pyval \<Rightarrow> pyval \<Rightarrow> pyval \<Rightarrow> txn" where
  "record_order pid amt st fl =
     \<lparr>order_id = PStr ''o-1'', customer_email = PNone, payment_id = pid, amount = amt,
      currency = PStr ''USD'', created_at = PStr ''2024-01-01T00:00:00Z'', flags = fl,
      payment_ref = PNone, payment_provider = PNone, payment_status = st\<rparr>"

definition record_amount :: "pyval \<Rightarrow> txn" where
  "record_amount a = (record_paid (PStr ''normal''))\<lparr>amount := a\<rparr>"

definition row_paid :: "pyval \<Rightarrow> row" where
  "row_paid fl = with_amount_usd (record_paid fl) (Num 25)"

section \<open>Auxiliary notions\<close>

text \<open>The rows that \<open>duplicated_from\<close> does not mark, for a key function \<open>f\<close> and the
  keys \<open>seen\<close> so far.\<close>

definition kept :: "'k list \<Rightarrow> ('a \<Rightarrow> 'k) \<Rightarrow> 'a list \<Rightarrow> 'a list" where
  "kept seen f xs = map fst (filter (\<lambda>(r, d). \<not> d) (zip xs (duplicated_from seen (map f xs))))"

section \<open>Properties of the field extraction\<close>

lemma lookup_path_Nil [simp]: "lookup_path v [] = Some v"
  by (cases v) simp_all

lemma is_dict_conv: "is_dict v \<longleftrightarrow> (\<exists>kvs. v = PDict kvs)"
  by (cases v) auto

lemma get_chain2:
  assumes "is_dict r" and "mapping_or_absent r [a]"
  shows "get_chain r [(a, empty_dict), (b, d)] = Inr (field_or r [a, b] d)"
proof -
  from assms(1) obtain kvs where r: "r = PDict kvs" by (auto simp: is_dict_conv)
  show ?thesis
  proof (cases "map_of kvs a")
    case None
    then show ?thesis by (simp add: r field_or_def)
  next
    case (Some w)
    with assms(2) r obtain kvs' where "w = PDict kvs'"
      by (auto simp: mapping_or_absent_def is_dict_conv)
    with Some show ?thesis by (simp add: r field_or_def split: option.splits)
  qed
qed

lemma get_chain3:
  assumes "is_dict r" and "mapping_or_absent r [a]" and "mapping_or_absent r [a, b]"
  shows "get_chain r [(a, empty_dict), (b, empty_dict), (c, d)] = Inr (field_or r [a, b, c] d)"
proof -
  from assms(1) obtain kvs where r: "r = PDict kvs" by (auto simp: is_dict_conv)
  show ?thesis
  proof (cases "map_of kvs a")
    case None
    then show ?thesis by (simp add: r field_or_def)
  next
    case (Some w)
    with assms(2) r obtain kvs' where w: "w = PDict kvs'"
      by (auto simp: mapping_or_absent_def is_dict_conv)
    show ?thesis
    proof (cases "map_of kvs' b")
      case None
      with Some w show ?thesis by (simp add: r field_or_def)
    next
      case inner: (Some u)
      with assms(3) r Some w obtain kvs'' where "u = PDict kvs''"
        by (auto simp: mapping_or_absent_def is_dict_conv)
      with Some w inner show ?thesis by (simp add: r field_or_def split: option.splits)
    qed
  qed
qed

lemma event_type_ok:
  assumes "raw_event_ok r"
  shows "event_type_of r = Inr (field_or r [''event'', ''type''] PNone)"
  using assms unfolding event_type_of_def raw_event_ok_def
  by (intro get_chain2) simp_all

lemma heartbeat_field_or:
  "field_or r [''event'', ''type''] PNone = PStr ''heartbeat'' \<longleftrightarrow> is_heartbeat r"
  by (auto simp: field_or_def is_heartbeat_def split: option.splits)

text \<open>On a raw event of the data model no lookup raises, and the loop body yields the
  record of the fixed paths, or nothing for a heartbeat.\<close>

lemma extract_record_ok:
  assumes "raw_event_ok r"
  shows "extract_record r = Inr (if is_heartbeat r then None else Some (spec_fields r))"
proof -
  have d: "is_dict r" and e: "mapping_or_absent r [''event'']"
    and n: "mapping_or_absent r [''entity'']" and p: "mapping_or_absent r [''payload'']"
    and no: "mapping_or_absent r [''entity'', ''order'']"
    and nc: "mapping_or_absent r [''entity'', ''customer'']"
    and np: "mapping_or_absent r [''entity'', ''payment'']"
    and nl: "mapping_or_absent r [''entity'', ''payload'']"
    using assms by (simp_all add: raw_event_ok_def)
  show ?thesis
    unfolding extract_record_def
    by (simp only: event_type_ok [OF assms] get_chain2 [OF d e] get_chain2 [OF d p]
        get_chain3 [OF d n no] get_chain3 [OF d n nc] get_chain3 [OF d n np]
        get_chain3 [OF d n nl] and_then.simps heartbeat_field_or spec_fields_def)
      simp
qed

lemma extract_record_not_dict:
  assumes "\<not> is_dict r"
  shows "extract_record r = Inl (AttributeError (type_name r))"
  using assms by (cases r) (simp_all add: extract_record_def event_type_of_def)

lemma extract_loop_acc:
  "extract_loop data acc =
     (case extract_loop data [] of Inl e \<Rightarrow> Inl e | Inr out \<Rightarrow> Inr (acc @ out))"
proof (induction data arbitrary: acc)
  case Nil
  show ?case by simp
next
  case (Cons r data)
  show ?case
  proof (cases "extract_record r")
    case (Inl e)
    then show ?thesis by simp
  next
    case (Inr x)
    show ?thesis
    proof (cases x)
      case None
      with Inr Cons.IH [of acc] show ?thesis by simp
    next
      case (Some t)
      with Inr Cons.IH [of "acc @ [t]"] Cons.IH [of "[t]"] show ?thesis
        by (simp split: sum.splits)
    qed
  qed
qed

lemma extract_loop_one:
  "extract_loop data [t] =
     (case extract_loop data [] of Inl e \<Rightarrow> Inl e | Inr out \<Rightarrow> Inr (t # out))"
  using extract_loop_acc [of data "[t]"] by (simp split: sum.splits)

lemma extract_loop_raises:
  assumes "r \<in> set data" and "extract_record r = Inl e"
  shows "\<exists>e'. extract_loop data [] = Inl e'"
  using assms
proof (induction data)
  case Nil
  then show ?case by simp
next
  case (Cons a data)
  then show ?case
    by (cases "a = r") (auto simp: extract_loop_one split: sum.splits option.splits)
qed

lemma extract_loop_returns:
  assumes "extract_loop data [] = Inr out"
  shows "map (\<lambda>t. Inr (Some t)) out =
         map extract_record (filter (\<lambda>r. event_type_of r \<noteq> Inr (PStr ''heartbeat'')) data)"
  using assms
proof (induction data arbitrary: out)
  case Nil
  then show ?case by simp
next
  case (Cons r data)
  show ?case
  proof (cases "extract_record r")
    case (Inl e)
    with Cons.prems show ?thesis by (simp add: extract_loop_one)
  next
    case (Inr x)
    show ?thesis
    proof (cases x)
      case None
      with Inr have hb: "event_type_of r = Inr (PStr ''heartbeat'')"
        by (cases "event_type_of r")
           (auto simp: extract_record_def split: if_splits sum.splits)
      from None Inr Cons.prems have "extract_loop data [] = Inr out"
        by (simp add: extract_loop_one)
      with Cons.IH hb show ?thesis by simp
    next
      case (Some t)
      with Inr have hb: "event_type_of r \<noteq> Inr (PStr ''heartbeat'')"
        by (cases "event_type_of r") (auto simp: extract_record_def)
      from Some Inr Cons.prems obtain out' where
        "extract_loop data [] = Inr out'" and "out = t # out'"
        by (auto simp: extract_loop_one split: sum.splits)
      with Cons.IH [of out'] hb Some Inr show ?thesis by simp
    qed
  qed
qed

lemma extract_loop_ok:
  assumes "\<forall>r \<in> set data. raw_event_ok r"
  shows "extract_loop data [] = Inr (map spec_fields (filter (\<lambda>r. \<not> is_heartbeat r) data))"
  using assms
  by (induction data) (simp_all add: extract_loop_one extract_record_ok)

lemmas sample_defs = event_paid_def event_heartbeat_def event_bare_def record_paid_def record_bare_def

lemma sample_events_ok:
  "raw_event_ok event_bare" "raw_event_ok event_heartbeat" "raw_event_ok (event_paid fl)"
  by (simp_all add: sample_defs raw_event_ok_def mapping_or_absent_def)

lemma sample_events_heartbeat:
  "\<not> is_heartbeat event_bare" "is_heartbeat event_heartbeat" "\<not> is_heartbeat (event_paid fl)"
  by (simp_all add: sample_defs is_heartbeat_def)

lemma sample_events_fields:
  "spec_fields event_bare = record_bare" "spec_fields (event_paid fl) = record_paid fl"
  by (simp_all add: sample_defs spec_fields_def field_or_def)

text \<open>
  C6: the extractor returns exactly one record per raw event whose event type is not
  \<^verbatim>\<open>heartbeat\<close>, none for a heartbeat, in the order of the input. Whenever it returns a
  list, the list is the extracted record of every event that is not a heartbeat, in
  order; and on a batch of raw events it does return, with the fields of each.
\<close>

theorem extraction_one_record_per_event:
  "(\<forall>out. snd (getting_relevant_data data) = Some out \<longrightarrow>
       map (\<lambda>t. Inr (Some t)) out =
         map extract_record (filter (\<lambda>r. event_type_of r \<noteq> Inr (PStr ''heartbeat'')) data))
   \<and> ((\<forall>r \<in> set data. raw_event_ok r) \<longrightarrow>
        getting_relevant_data data =
          ([], Some (map spec_fields (filter (\<lambda>r. \<not> is_heartbeat r) data))))"
proof (intro conjI allI impI)
  fix out
  assume "snd (getting_relevant_data data) = Some out"
  then have "extract_loop data [] = Inr out"
    by (simp add: getting_relevant_data_def split: sum.splits)
  then show "map (\<lambda>t. Inr (Some t)) out =
      map extract_record (filter (\<lambda>r. event_type_of r \<noteq> Inr (PStr ''heartbeat'')) data)"
    by (rule extract_loop_returns)
next
  assume "\<forall>r \<in> set data. raw_event_ok r"
  then show "getting_relevant_data data =
      ([], Some (map spec_fields (filter (\<lambda>r. \<not> is_heartbeat r) data)))"
    by (simp add: getting_relevant_data_def extract_loop_ok)
qed

theorem extraction_one_record_per_event_witness:
  "getting_relevant_data [event_bare, event_heartbeat, event_paid (PList [PStr ''normal''])] =
     ([], Some [record_bare, record_paid (PList [PStr ''normal''])])"
  using extraction_one_record_per_event
    [of "[event_bare, event_heartbeat, event_paid (PList [PStr ''normal''])]"]
  by (simp add: sample_events_ok sample_events_heartbeat sample_events_fields)

text \<open>
  C5 (as amended): for every retained raw event of the data model the extraction
  succeeds, and every field of the record is pulled by its fixed nested path: it is the
  value found at the end of the path when the path is present, and when the path is
  absent it is \<^verbatim>\<open>None\<close>, except for the two fields that the source gives a default: an
  absent currency is \<^verbatim>\<open>'USD'\<close> and absent flags are the empty list.
\<close>

theorem extraction_missing_paths:
  assumes "raw_event_ok r" and "\<not> is_heartbeat r"
  shows "\<exists>t. extract_record r = Inr (Some t)
     \<and> order_id t =
         (case lookup_path r [''entity'', ''order'', ''id''] of None \<Rightarrow> PNone | Some v \<Rightarrow> v)
     \<and> customer_email t =
         (case lookup_path r [''entity'', ''customer'', ''email''] of None \<Rightarrow> PNone | Some v \<Rightarrow> v)
     \<and> payment_id t =
         (case lookup_path r [''entity'', ''payment'', ''id''] of None \<Rightarrow> PNone | Some v \<Rightarrow> v)
     \<and> amount t =
         (case lookup_path r [''payload'', ''Amount''] of None \<Rightarrow> PNone | Some v \<Rightarrow> v)
     \<and> currency t =
         (case lookup_path r [''entity'', ''payload'', ''Currency''] of None \<Rightarrow> PStr ''USD'' | Some v \<Rightarrow> v)
     \<and> created_at t =
         (case lookup_path r [''event'', ''ts''] of None \<Rightarrow> PNone | Some v \<Rightarrow> v)
     \<and> flags t =
         (case lookup_path r [''payload'', ''flags''] of None \<Rightarrow> PList [] | Some v \<Rightarrow> v)
     \<and> payment_ref t =
         (case lookup_path r [''entity'', ''payment'', ''provider_ref''] of None \<Rightarrow> PNone | Some v \<Rightarrow> v)
     \<and> payment_provider t =
         (case lookup_path r [''entity'', ''payment'', ''provider''] of None \<Rightarrow> PNone | Some v \<Rightarrow> v)
     \<and> payment_status t =
         (case lookup_path r [''payload'', ''status''] of None \<Rightarrow> PNone | Some v \<Rightarrow> v)"
proof -
  have "extract_record r = Inr (Some (spec_fields r))"
    using assms by (simp add: extract_record_ok)
  then show ?thesis
    by (simp add: spec_fields_def field_or_def)
qed

theorem extraction_missing_paths_witness:
  "raw_event_ok (event_paid PNone) \<and> \<not> is_heartbeat (event_paid PNone)
   \<and> lookup_path (event_paid PNone) [''entity'', ''order'', ''id''] = Some (PStr ''o-1'')
   \<and> lookup_path (event_paid PNone) [''entity'', ''customer'', ''email''] = Some (PStr ''a@b.c'')
   \<and> lookup_path (event_paid PNone) [''payload'', ''Amount''] = Some (PStr ''25.00'')
   \<and> lookup_path (event_paid PNone) [''payload'', ''flags''] = Some PNone
   \<and> lookup_path (event_paid PNone) [''entity'', ''payload'', ''Currency''] = None
   \<and> extract_record (event_paid PNone) = Inr (Some (record_paid PNone))
   \<and> order_id (record_paid PNone) = PStr ''o-1''
   \<and> customer_email (record_paid PNone) = PStr ''a@b.c''
   \<and> amount (record_paid PNone) = PStr ''25.00''
   \<and> flags (record_paid PNone) = PNone
   \<and> currency (record_paid PNone) = PStr ''USD''"
proof -
  have ok: "raw_event_ok (event_paid PNone)" and hb: "\<not> is_heartbeat (event_paid PNone)"
    by (simp_all add: sample_events_ok sample_events_heartbeat)
  have paths: "lookup_path (event_paid PNone) [''entity'', ''order'', ''id''] = Some (PStr ''o-1'')"
    "lookup_path (event_paid PNone) [''entity'', ''customer'', ''email''] = Some (PStr ''a@b.c'')"
    "lookup_path (event_paid PNone) [''payload'', ''Amount''] = Some (PStr ''25.00'')"
    "lookup_path (event_paid PNone) [''payload'', ''flags''] = Some PNone"
    "lookup_path (event_paid PNone) [''entity'', ''payload'', ''Currency''] = None"
    by code_simp+
  have e: "extract_record (event_paid PNone) = Inr (Some (record_paid PNone))"
    by code_simp
  have f: "order_id (record_paid PNone) = PStr ''o-1''"
    "customer_email (record_paid PNone) = PStr ''a@b.c''"
    "amount (record_paid PNone) = PStr ''25.00''"
    "flags (record_paid PNone) = PNone"
    "currency (record_paid PNone) = PStr ''USD''"
    by (simp_all add: record_paid_def)
  from extraction_missing_paths [OF ok hb] have "\<exists>t. extract_record (event_paid PNone) = Inr (Some t)"
    by (elim exE conjE) (rule exI)
  with ok hb paths e f show ?thesis
    by (intro conjI) assumption+
qed

text \<open>
  C5 as stated fails in two ways. \<open>event_bare\<close> has neither a currency nor flags, and
  the record extracted from it holds \<^verbatim>\<open>'USD'\<close> and the empty list there, not \<^verbatim>\<open>None\<close>.
  And in \<open>event_null_entity\<close> the attribute \<^verbatim>\<open>entity\<close> is present and \<^verbatim>\<open>null\<close>, so no path
  leads to the order id, yet the field is not \<^verbatim>\<open>None\<close>: the lookup raises
  \<^verbatim>\<open>AttributeError\<close> and the extraction of the whole batch fails.
\<close>

theorem missing_currency_and_flags_not_null:
  "lookup_path event_bare [''entity'', ''payload'', ''Currency''] = None
   \<and> lookup_path event_bare [''payload'', ''flags''] = None
   \<and> extract_record event_bare = Inr (Some record_bare)
   \<and> currency record_bare = PStr ''USD'' \<and> flags record_bare = PList []
   \<and> lookup_path event_null_entity [''entity'', ''order'', ''id''] = None
   \<and> extract_record event_null_entity = Inl (AttributeError ''NoneType'')
   \<and> snd (getting_relevant_data [event_bare, event_null_entity]) = None"
  by code_simp

text \<open>
  C9: if any record of the batch makes a lookup raise (a record that is not a mapping
  does), the extractor catches the exception for the whole batch, writes one line to the
  error log and returns \<^verbatim>\<open>None\<close>: no record of the batch is returned.
\<close>

theorem extraction_all_or_nothing:
  assumes "r \<in> set data" and "\<not> is_dict r \<or> (\<exists>e. extract_record r = Inl e)"
  shows "\<exists>e. getting_relevant_data data =
           ([(ERROR, ''Error extracting relevant data: '' @ error_text e)], None)"
proof -
  from assms(2) obtain e where "extract_record r = Inl e"
    using extract_record_not_dict by blast
  with assms(1) obtain e' where "extract_loop data [] = Inl e'"
    using extract_loop_raises by blast
  then have "getting_relevant_data data =
      ([(ERROR, ''Error extracting relevant data: '' @ error_text e')], None)"
    by (simp add: getting_relevant_data_def)
  then show ?thesis ..
qed

theorem extraction_all_or_nothing_witness:
  "PList [] \<in> set [event_bare, PList [], event_paid PNone] \<and> \<not> is_dict (PList [])
   \<and> getting_relevant_data [event_bare, PList [], event_paid PNone] =
        ([(ERROR, ''Error extracting relevant data: '' @ error_text (AttributeError ''list''))], None)"
proof -
  have m: "PList [] \<in> set [event_bare, PList [], event_paid PNone]" and d: "\<not> is_dict (PList [])"
    by simp_all
  have e: "getting_relevant_data [event_bare, PList [], event_paid PNone] =
        ([(ERROR, ''Error extracting relevant data: '' @ error_text (AttributeError ''list''))], None)"
    by code_simp
  from extraction_all_or_nothing [OF m disjI1 [OF d]] m d e show ?thesis
    by blast
qed

section \<open>Properties of the amount normalisation\<close>

lemma with_amount_usd_sel [simp]:
  "amount_usd (with_amount_usd t x) = x"
  "order_id (with_amount_usd t x) = order_id t"
  "customer_email (with_amount_usd t x) = customer_email t"
  "payment_id (with_amount_usd t x) = payment_id t"
  "amount (with_amount_usd t x) = amount t"
  "currency (with_amount_usd t x) = currency t"
  "created_at (with_amount_usd t x) = created_at t"
  "flags (with_amount_usd t x) = flags t"
  "payment_ref (with_amount_usd t x) = payment_ref t"
  "payment_provider (with_amount_usd t x) = payment_provider t"
  "payment_status (with_amount_usd t x) = payment_status t"
  by (simp_all add: with_amount_usd_def txn.defs row.defs)

lemma starts_with_iff: "starts_with pat s \<longleftrightarrow> (\<exists>suf. s = pat @ suf)"
  by (induction pat s rule: starts_with.induct) auto

text \<open>\<open>py_in\<close> is the substring relation.\<close>

lemma py_in_iff: "py_in pat s \<longleftrightarrow> (\<exists>pre suf. s = pre @ pat @ suf)"
proof (induction s)
  case Nil
  show ?case by auto
next
  case (Cons c cs)
  show ?case
  proof
    assume "py_in pat (c # cs)"
    then consider "starts_with pat (c # cs)" | "py_in pat cs" by auto
    then show "\<exists>pre suf. c # cs = pre @ pat @ suf"
    proof cases
      case 1
      then obtain suf where "c # cs = pat @ suf" by (auto simp: starts_with_iff)
      then have "c # cs = [] @ pat @ suf" by simp
      then show ?thesis by blast
    next
      case 2
      with Cons.IH obtain pre suf where "cs = pre @ pat @ suf" by blast
      then have "c # cs = (c # pre) @ pat @ suf" by simp
      then show ?thesis by blast
    qed
  next
    assume "\<exists>pre suf. c # cs = pre @ pat @ suf"
    then obtain pre suf where eq: "c # cs = pre @ pat @ suf" by blast
    show "py_in pat (c # cs)"
    proof (cases pre)
      case Nil
      with eq have "starts_with pat (c # cs)" by (auto simp: starts_with_iff)
      then show ?thesis by simp
    next
      case (Cons p pre')
      with eq have "cs = pre' @ pat @ suf" by simp
      with Cons.IH have "py_in pat cs" by blast
      then show ?thesis by simp
    qed
  qed
qed

lemma py_in_char: "py_in [c] s \<longleftrightarrow> c \<in> set s"
  by (induction s) auto

lemma and_then_Inr_iff: "and_then m f = Inr y \<longleftrightarrow> (\<exists>x. m = Inr x \<and> f x = Inr y)"
  by (cases m) simp_all

lemma map_err_Inr_iff: "map_err f xs = Inr ys \<longleftrightarrow> map f xs = map Inr ys"
proof (induction xs arbitrary: ys)
  case Nil
  show ?case by auto
next
  case (Cons x xs)
  show ?case
  proof (cases "f x")
    case (Inl e)
    then show ?thesis by auto
  next
    case (Inr y)
    show ?thesis
    proof (cases "map_err f xs")
      case (Inl e)
      with Cons.IH have "\<And>zs. map f xs \<noteq> map Inr zs" by auto
      with Inl Inr show ?thesis by (cases ys) auto
    next
      case inner: (Inr zs)
      with Cons.IH [of zs] have "map f xs = map Inr zs" by simp
      with Inr inner show ?thesis by (cases ys) (auto simp: inj_map_eq_map [OF inj_Inr])
    qed
  qed
qed

lemma map_err_total:
  assumes "\<forall>x \<in> set xs. \<exists>y. f x = Inr y"
  shows "\<exists>ys. map_err f xs = Inr ys"
  using assms
proof (induction xs)
  case Nil
  show ?case by simp
next
  case (Cons x xs)
  then obtain y ys where "f x = Inr y" and "map_err f xs = Inr ys" by auto
  then show ?case by simp
qed

lemma map_err_member:
  assumes "map_err f xs = Inr ys" and "y \<in> set ys"
  shows "\<exists>x \<in> set xs. f x = Inr y"
proof -
  from assms(1) have m: "map f xs = map Inr ys" by (simp add: map_err_Inr_iff)
  from assms(2) have "Inr y \<in> set (map Inr ys)" by simp
  with m have "Inr y \<in> set (map f xs)" by simp
  then show ?thesis by auto
qed

lemma zip_divided:
  "map (\<lambda>(t, x). g t x) (zip df (map (\<lambda>(c, x). h c x) (zip (map P df) xs))) =
   map (\<lambda>(t, x). g t (h (P t) x)) (zip df xs)"
proof (induction df arbitrary: xs)
  case Nil
  show ?case by simp
next
  case (Cons t df)
  show ?case by (cases xs) (simp_all add: Cons.IH)
qed

text \<open>\<^verbatim>\<open>normalize_amount\<close> row by row: it returns when every cell parses, and then each
  input row is paired with its parsed amount, divided by 100 when the row is marked.\<close>

lemma normalize_amount_rows:
  "normalize_amount df = Inr out \<longleftrightarrow>
     (\<exists>xs. map (\<lambda>t. parse_amount (amount t)) df = map Inr xs \<and>
        out = filter (\<lambda>r. fgt (amount_usd r) 0)
                (map (\<lambda>(t, x). with_amount_usd t
                        (if is_cent (PStr (py_str (amount t))) then fdiv x 100 else x))
                   (zip df xs)))"
proof (cases "map_err (\<lambda>t. parse_amount (amount t)) df")
  case (Inl e)
  then have "\<And>xs. map (\<lambda>t. parse_amount (amount t)) df \<noteq> map Inr xs"
    using map_err_Inr_iff [of "\<lambda>t. parse_amount (amount t)" df] by auto
  with Inl show ?thesis by (simp add: normalize_amount_def)
next
  case (Inr ys)
  then have ys: "map (\<lambda>t. parse_amount (amount t)) df = map Inr ys"
    by (simp add: map_err_Inr_iff)
  then have uniq: "\<And>xs. map (\<lambda>t. parse_amount (amount t)) df = map Inr xs \<longleftrightarrow> xs = ys"
    by (auto simp: inj_map_eq_map [OF inj_Inr])
  show ?thesis
    by (auto simp add: normalize_amount_def Inr uniq zip_divided Let_def)
qed

lemma normalize_amount_raises:
  "(\<exists>e. normalize_amount df = Inl e) \<longleftrightarrow> (\<exists>t \<in> set df. \<exists>e. parse_amount (amount t) = Inl e)"
proof -
  have "(\<exists>ys. map_err f xs = Inr ys) \<longleftrightarrow> (\<forall>x \<in> set xs. \<exists>y. f x = Inr y)" for f :: "txn \<Rightarrow> py_error + float64" and xs
  proof (induction xs)
    case Nil
    show ?case by simp
  next
    case (Cons x xs)
    show ?case
    proof (cases "f x")
      case (Inl e)
      then show ?thesis by auto
    next
      case (Inr y)
      with Cons.IH show ?thesis by (cases "map_err f xs") auto
    qed
  qed
  from this [of "\<lambda>t. parse_amount (amount t)" df] show ?thesis
    apply (cases "map_err (\<lambda>t. parse_amount (amount t)) df")
     apply (simp_all add: normalize_amount_def Let_def)
     apply (metis Inl_Inr_False sum.exhaust_sel sum.collapse(1))
    apply (metis Inl_Inr_False)
    done
qed

lemma normalize_amount_row:
  assumes "normalize_amount df = Inr out" and "r \<in> set out"
  shows "fgt (amount_usd r) 0 \<and> (\<exists>t \<in> set df. \<exists>x. r = with_amount_usd t x)"
proof -
  from assms(1) obtain xs where
    out: "out = filter (\<lambda>r. fgt (amount_usd r) 0)
                (map (\<lambda>(t, x). with_amount_usd t
                        (if is_cent (PStr (py_str (amount t))) then fdiv x 100 else x))
                   (zip df xs))"
    by (auto simp: normalize_amount_rows)
  with assms(2) obtain t x where "(t, x) \<in> set (zip df xs)"
    and "r = with_amount_usd t (if is_cent (PStr (py_str (amount t))) then fdiv x 100 else x)"
    and "fgt (amount_usd r) 0"
    by auto
  then show ?thesis by (auto dest: set_zip_leftD)
qed

lemma is_cent_str_iff:
  "is_cent (PStr s) \<longleftrightarrow>
     s \<noteq> [] \<and> \<not> isna (PStr s) \<and> CHR ''.'' \<notin> set s \<and> CHR ''$'' \<notin> set s
     \<and> \<not> (\<exists>pre suf. s = pre @ ''USD'' @ suf)"
  by (simp add: is_cent_def isna_def py_in_char py_in_iff [of "''USD''"])

lemmas eval_defs = normalize_amount_def parse_amount_def strip_non_numeric_def py_strip_def
  is_digit_def is_space_def is_cent_def isna_def to_float_def is_numeral_def decimal_value_def
  digits_nat_def digit_value_def

text \<open>
  The classification on the string form, which is what line 80 computes, and the rows
  that \<^verbatim>\<open>normalize_amount\<close> returns: the parsed amount is divided by 100 for exactly the
  rows that are marked, before the rows that are not greater than zero are dropped. An
  amount with a dot, a \<^verbatim>\<open>$\<close> or \<^verbatim>\<open>USD\<close> is not marked, so it is never divided.
\<close>

lemma cents_classification:
  assumes "normalize_amount df = Inr out"
  shows "(\<forall>t \<in> set df.
            is_cent (PStr (py_str (amount t))) \<longleftrightarrow>
              py_str (amount t) \<noteq> []
              \<and> CHR ''.'' \<notin> set (py_str (amount t)) \<and> CHR ''$'' \<notin> set (py_str (amount t))
              \<and> \<not> (\<exists>pre suf. py_str (amount t) = pre @ ''USD'' @ suf))
       \<and> (\<exists>parsed. map (\<lambda>t. parse_amount (amount t)) df = map Inr parsed
            \<and> out = filter (\<lambda>r. fgt (amount_usd r) 0)
                   (map (\<lambda>(t, x). with_amount_usd t
                           (if is_cent (PStr (py_str (amount t))) then fdiv x 100 else x))
                      (zip df parsed)))"
  using assms by (simp add: normalize_amount_rows is_cent_str_iff isna_def)

lemma cents_classification_example:
  "normalize_amount [record_amount (PStr ''500''), record_amount (PStr ''$5.00''),
                     record_amount (PStr ''12 USD''), record_amount PNone]
     = Inr [with_amount_usd (record_amount (PStr ''500'')) (Num 5),
            with_amount_usd (record_amount (PStr ''$5.00'')) (Num 5),
            with_amount_usd (record_amount (PStr ''12 USD'')) (Num 12)]
   \<and> cents_rep [record_amount (PStr ''500''), record_amount (PStr ''$5.00''),
                 record_amount (PStr ''12 USD''), record_amount PNone]
     = [True, False, False, True]"
  by code_simp

text \<open>The column of line 80 is the one that line 89 divides by.\<close>

lemma normalize_amount_cents_rep:
  "normalize_amount df1 =
     and_then (map_err (\<lambda>t. parse_amount (amount t)) df1)
       (\<lambda>floats. Inr (filter (\<lambda>r. fgt (amount_usd r) 0)
          (map (\<lambda>(t, x). with_amount_usd t x)
             (zip df1 (map (\<lambda>(c, x). if c then fdiv x 100 else x) (zip (cents_rep df1) floats))))))"
  by (simp add: normalize_amount_def cents_rep_def Let_def)

text \<open>
  C4 (the code breaks it): an amount is to be classified as cents only if it is not
  null, and \<^verbatim>\<open>is_cent\<close> tests \<^verbatim>\<open>pd.isna\<close> first (line 73). But line 80 applies \<^verbatim>\<open>is_cent\<close>
  to the cells of \<^verbatim>\<open>amount.astype(str)\<close>, where \<^verbatim>\<open>None\<close> has become the string \<^verbatim>\<open>None\<close>:
  the test never sees a null, and a null amount is classified as cents. In a table with
  the amounts \<^verbatim>\<open>500\<close> and \<^verbatim>\<open>None\<close> both rows are marked, and line 81 logs two records in
  cents format.
\<close>

theorem null_amount_classified_as_cents:
  "isna (amount (record_amount PNone))
   \<and> \<not> is_cent (amount (record_amount PNone))
   \<and> py_str (amount (record_amount PNone)) = ''None''
   \<and> \<not> isna (PStr (py_str (amount (record_amount PNone))))
   \<and> cents_rep [record_amount (PStr ''500''), record_amount PNone] = [True, True]
   \<and> length (filter (\<lambda>c. c) (cents_rep [record_amount (PStr ''500''), record_amount PNone])) = 2"
  by code_simp

text \<open>
  C3 (as amended): whatever the other fields of the record are, the amount \<^verbatim>\<open>500\<close>
  gives \<^verbatim>\<open>amount_usd\<close> 5.00, and so do \<^verbatim>\<open>$5.00\<close> and \<^verbatim>\<open>5.00\<close>. The malformed
  \<^verbatim>\<open>12.5.0\<close> is left as it is by the stripping, which keeps every digit and every dot;
  it is treated as already in major units because it has a dot, and it is not a numeral:
  the conversion to \<^verbatim>\<open>float64\<close> raises \<^verbatim>\<open>ValueError\<close> and no \<^verbatim>\<open>amount_usd\<close> results.
\<close>

theorem normalizer_examples:
  "normalize_amount [t\<lparr>amount := PStr ''500''\<rparr>] = Inr [with_amount_usd (t\<lparr>amount := PStr ''500''\<rparr>) (Num 5)]
   \<and> normalize_amount [t\<lparr>amount := PStr ''$5.00''\<rparr>] = Inr [with_amount_usd (t\<lparr>amount := PStr ''$5.00''\<rparr>) (Num 5)]
   \<and> normalize_amount [t\<lparr>amount := PStr ''5.00''\<rparr>] = Inr [with_amount_usd (t\<lparr>amount := PStr ''5.00''\<rparr>) (Num 5)]
   \<and> strip_non_numeric ''12.5.0'' = ''12.5.0''
   \<and> \<not> is_cent (PStr ''12.5.0'')
   \<and> to_float ''12.5.0'' = Inl ValueError
   \<and> normalize_amount [t\<lparr>amount := PStr ''12.5.0''\<rparr>] = Inl ValueError"
  by (simp add: eval_defs)

text \<open>
  C3 as stated fails on its last example: \<^verbatim>\<open>12.5.0\<close> is not stripped to \<^verbatim>\<open>12.50\<close> and
  does not give \<^verbatim>\<open>amount_usd\<close> 12.50.
\<close>

theorem malformed_amount_is_not_12_50:
  "strip_non_numeric ''12.5.0'' \<noteq> ''12.50''
   \<and> normalize_amount [record_amount (PStr ''12.5.0'')] = Inl ValueError
   \<and> normalize_amount [record_amount (PStr ''12.5.0'')]
       \<noteq> Inr [with_amount_usd (record_amount (PStr ''12.5.0'')) (Num (25 / 2))]"
  by (simp add: record_amount_def eval_defs)

lemma digit_not_special:
  assumes "is_digit c"
  shows "\<not> is_space c" and "c \<noteq> CHR ''.''" and "c \<noteq> CHR ''$''" and "c \<noteq> CHR ''U''" and "c \<noteq> CHR ''-''"
  using assms by (auto simp: is_digit_def is_space_def)

lemma digit_value_pos:
  assumes "is_digit c" and "c \<noteq> CHR ''0''"
  shows "0 < digit_value c"
  using assms by (auto simp: is_digit_def digit_value_def)

lemma foldl_digits_pos_acc:
  "0 < n \<Longrightarrow> 0 < foldl (\<lambda>n c. 10 * n + digit_value c) n ds"
  by (induction ds arbitrary: n) simp_all

lemma foldl_digits_pos:
  assumes "\<exists>c \<in> set ds. 0 < digit_value c"
  shows "0 < foldl (\<lambda>n c. 10 * n + digit_value c) n ds"
  using assms
proof (induction ds arbitrary: n)
  case Nil
  then show ?case by simp
next
  case (Cons c ds)
  show ?case
  proof (cases "0 < digit_value c")
    case True
    then have "0 < 10 * n + digit_value c" by simp
    then show ?thesis by (simp add: foldl_digits_pos_acc)
  next
    case False
    with Cons.prems have "\<exists>c \<in> set ds. 0 < digit_value c" by auto
    then show ?thesis by (simp add: Cons.IH)
  qed
qed

lemma digits_nat_pos:
  assumes "list_all is_digit ds" and "\<not> list_all (\<lambda>c. c = CHR ''0'') ds"
  shows "0 < digits_nat ds"
proof -
  from assms(2) obtain c where "c \<in> set ds" and "c \<noteq> CHR ''0''"
    by (auto simp: list_all_iff)
  with assms(1) have "\<exists>c \<in> set ds. 0 < digit_value c"
    by (auto simp: list_all_iff intro: digit_value_pos)
  then show ?thesis unfolding digits_nat_def by (rule foldl_digits_pos)
qed

lemma py_strip_no_space:
  assumes "\<forall>c \<in> set s. \<not> is_space c"
  shows "py_strip s = s"
proof -
  have "dropWhile is_space xs = xs" if "\<forall>c \<in> set xs. \<not> is_space c" for xs
    using that by (cases xs) simp_all
  from this [of s] this [of "rev s"] assms show ?thesis
    by (simp add: py_strip_def)
qed

lemma py_strip_stripped [simp]: "py_strip (strip_non_numeric s) = strip_non_numeric s"
  by (rule py_strip_no_space) (auto simp: strip_non_numeric_def is_space_def is_digit_def)

lemma strip_digits:
  assumes "list_all is_digit ds"
  shows "strip_non_numeric ds = ds" and "strip_non_numeric (CHR ''-'' # ds) = ds"
proof -
  have "\<not> is_digit CHR ''-''" by (simp add: is_digit_def)
  with assms show "strip_non_numeric ds = ds" and "strip_non_numeric (CHR ''-'' # ds) = ds"
    by (simp_all add: strip_non_numeric_def list_all_iff filter_id_conv)
qed

lemma py_strip_digits:
  assumes "list_all is_digit ds"
  shows "py_strip ds = ds"
  using assms by (intro py_strip_no_space) (auto simp: list_all_iff dest: digit_not_special(1))

lemma to_float_digits:
  assumes "ds \<noteq> []" and "list_all is_digit ds"
  shows "to_float ds = Inr (Num (of_nat (digits_nat ds)))"
proof -
  have nodot: "\<forall>c \<in> set ds. c \<noteq> CHR ''.''"
    using assms(2) by (auto simp: list_all_iff dest: digit_not_special(2))
  then have "filter (\<lambda>c. c = CHR ''.'') ds = []"
    by (simp add: filter_empty_conv)
  moreover from assms have "list_ex is_digit ds"
    by (cases ds) (simp_all add: list_ex_iff)
  moreover have "list_all (\<lambda>c. is_digit c \<or> c = CHR ''.'') ds"
    using assms(2) by (simp add: list_all_iff)
  ultimately have "is_numeral ds" by (simp add: is_numeral_def)
  moreover from nodot have tw: "takeWhile (\<lambda>c. c \<noteq> CHR ''.'') ds = ds"
    and dw: "dropWhile (\<lambda>c. c \<noteq> CHR ''.'') ds = []"
    by simp_all
  have "decimal_value ds = of_nat (digits_nat ds)"
    unfolding decimal_value_def tw dw by (simp add: digits_nat_def)
  ultimately show ?thesis by (simp add: to_float_def)
qed

lemma is_cent_minus_digits:
  assumes "list_all is_digit ds"
  shows "is_cent (PStr (CHR ''-'' # ds))"
proof -
  have "c \<notin> set (CHR ''-'' # ds)" if "c \<in> {CHR ''.'', CHR ''$'', CHR ''U''}" for c
    using that assms by (auto simp: list_all_iff dest: digit_not_special)
  then have "CHR ''.'' \<notin> set (CHR ''-'' # ds)" "CHR ''$'' \<notin> set (CHR ''-'' # ds)"
    and u: "CHR ''U'' \<notin> set (CHR ''-'' # ds)"
    by blast+
  moreover have "\<not> (\<exists>pre suf. CHR ''-'' # ds = pre @ ''USD'' @ suf)"
  proof
    assume "\<exists>pre suf. CHR ''-'' # ds = pre @ ''USD'' @ suf"
    then obtain pre suf where "CHR ''-'' # ds = pre @ ''USD'' @ suf" by blast
    then have "CHR ''U'' \<in> set (CHR ''-'' # ds)" by (metis in_set_conv_decomp append_Cons)
    with u show False by contradiction
  qed
  ultimately show ?thesis by (simp add: is_cent_str_iff isna_def)
qed

text \<open>
  C10 (as amended): for every record whose raw amount is a minus sign followed by one or
  more digits that are not all \<^verbatim>\<open>0\<close>, the stripping removes the minus sign, the value is
  classified as cents and divided by 100, the resulting \<^verbatim>\<open>amount_usd\<close> is strictly
  positive, and the row survives the filter of line 92.
\<close>

theorem negative_amount_survives:
  assumes "t \<in> set df" and "amount t = PStr (CHR ''-'' # ds)"
    and "ds \<noteq> []" and "list_all is_digit ds" and "\<not> list_all (\<lambda>c. c = CHR ''0'') ds"
    and "normalize_amount df = Inr out"
  shows "strip_non_numeric (py_str (amount t)) = ds
       \<and> is_cent (PStr (py_str (amount t)))
       \<and> parse_amount (amount t) = Inr (Num (of_nat (digits_nat ds)))
       \<and> (0::rat) < of_nat (digits_nat ds) / 100
       \<and> with_amount_usd t (Num (of_nat (digits_nat ds) / 100)) \<in> set out"
proof -
  let ?usd = "Num (of_nat (digits_nat ds) / 100)"
  have s: "strip_non_numeric (py_str (amount t)) = ds"
    using assms(2,4) by (simp add: strip_digits)
  have c: "is_cent (PStr (py_str (amount t)))"
    using assms(2,4) by (simp add: is_cent_minus_digits)
  have p: "parse_amount (amount t) = Inr (Num (of_nat (digits_nat ds)))"
    using assms(2,3,4)
    by (simp add: parse_amount_def strip_digits py_strip_digits to_float_digits)
  have pos: "(0::rat) < of_nat (digits_nat ds) / 100"
    using digits_nat_pos [OF assms(4,5)] by simp
  from assms(6) obtain xs where xs: "map (\<lambda>t. parse_amount (amount t)) df = map Inr xs"
    and out: "out = filter (\<lambda>r. fgt (amount_usd r) 0)
                (map (\<lambda>(t, x). with_amount_usd t
                        (if is_cent (PStr (py_str (amount t))) then fdiv x 100 else x))
                   (zip df xs))"
    by (auto simp: normalize_amount_rows)
  from xs have len: "length xs = length df" by (metis length_map)
  from assms(1) obtain i where i: "i < length df" and ti: "df ! i = t"
    by (auto simp: in_set_conv_nth)
  from xs i len have "parse_amount (amount (df ! i)) = Inr (xs ! i)"
    by (metis nth_map)
  with p ti have xi: "xs ! i = Num (of_nat (digits_nat ds))" by simp
  from i len have "(t, xs ! i) \<in> set (zip df xs)"
    using ti by (auto simp: in_set_zip)
  then have "with_amount_usd t (if is_cent (PStr (py_str (amount t))) then fdiv (xs ! i) 100 else xs ! i)
      \<in> set (map (\<lambda>(t, x). with_amount_usd t
                        (if is_cent (PStr (py_str (amount t))) then fdiv x 100 else x))
                   (zip df xs))"
    by force
  with c xi pos have "with_amount_usd t ?usd \<in> set out"
    by (simp add: out)
  with s c p pos show ?thesis by simp
qed

theorem negative_amount_survives_witness:
  "normalize_amount [record_amount (PStr ''-500'')] = Inr [with_amount_usd (record_amount (PStr ''-500'')) (Num 5)]
   \<and> strip_non_numeric (py_str (amount (record_amount (PStr ''-500'')))) = ''500''
   \<and> is_cent (PStr (py_str (amount (record_amount (PStr ''-500'')))))
   \<and> (0::rat) < of_nat (digits_nat ''500'') / 100
   \<and> with_amount_usd (record_amount (PStr ''-500'')) (Num (of_nat (digits_nat ''500'') / 100))
       \<in> set [with_amount_usd (record_amount (PStr ''-500'')) (Num 5)]"
proof -
  let ?t = "record_amount (PStr ''-500'')"
  have a: "?t \<in> set [?t]" by simp
  have b: "amount ?t = PStr (CHR ''-'' # ''500'')" by (simp add: record_amount_def)
  have c: "''500'' \<noteq> []" by simp
  have d: "list_all is_digit ''500''" by (simp add: is_digit_def)
  have e: "\<not> list_all (\<lambda>c. c = CHR ''0'') ''500''" by simp
  have f: "normalize_amount [?t] = Inr [with_amount_usd ?t (Num 5)]"
    by (simp add: record_amount_def eval_defs)
  from negative_amount_survives [OF a b c d e f] f show ?thesis by simp
qed

text \<open>
  C10 as stated fails when all digits are zero: \<^verbatim>\<open>-0\<close> is a minus sign followed by
  digits only, it is stripped to \<^verbatim>\<open>0\<close> and classified as cents, its \<^verbatim>\<open>amount_usd\<close> is
  0, not positive, and the row is dropped.
\<close>

theorem negative_zero_is_dropped:
  "list_all is_digit ''0'' \<and> strip_non_numeric ''-0'' = ''0'' \<and> is_cent (PStr ''-0'')
   \<and> parse_amount (PStr ''-0'') = Inr (Num 0)
   \<and> normalize_amount [record_amount (PStr ''-0'')] = Inr []"
  by (simp add: record_amount_def eval_defs)

section \<open>Properties of the flag canonicalizer\<close>

lemma as_strs_iff: "as_strs xs = Some ss \<longleftrightarrow> xs = map PStr ss"
proof (induction xs arbitrary: ss)
  case Nil
  show ?case by auto
next
  case (Cons x xs)
  show ?case
  proof (cases x)
    case (PStr s)
    with Cons.IH show ?thesis by (cases ss) auto
  qed (auto simp: map_eq_Cons_conv)
qed

lemma as_strs_map [simp]: "as_strs (map PStr ss) = Some ss"
  by (simp add: as_strs_iff)

lemma map_PStr_eq [simp]: "map PStr ss = map PStr ss' \<longleftrightarrow> ss = ss'"
  by (rule inj_map_eq_map) (simp add: inj_on_def)

lemma join_flags_list:
  "join_flags (PList xs) = Inr y \<longleftrightarrow> (\<exists>ss. xs = map PStr ss \<and> y = PStr (join '','' ss))"
proof (cases "as_strs xs")
  case None
  then have "\<And>ss. xs \<noteq> map PStr ss" by (metis as_strs_map option.distinct(1))
  with None show ?thesis by (simp add: join_flags_def)
next
  case (Some ss)
  then have "xs = map PStr ss" by (simp add: as_strs_iff)
  then show ?thesis by (auto simp: join_flags_def)
qed

lemma join_flags_other:
  "\<not> is_list x \<Longrightarrow> join_flags x = Inr x"
  by (cases x) (simp_all add: join_flags_def)

lemma join_flags_not_list:
  assumes "join_flags x = Inr y"
  shows "\<not> is_list y"
proof (cases "is_list x")
  case True
  then obtain xs where "x = PList xs" by (cases x) simp_all
  with assms show ?thesis by (auto simp: join_flags_list)
next
  case False
  with assms show ?thesis by (simp add: join_flags_other)
qed

lemma extract_flags_row:
  assumes "extract_flags df = Inr out" and "r' \<in> set out"
  shows "\<exists>r \<in> set df. \<exists>y. \<not> is_list y \<and> r' = r\<lparr>flags := y\<rparr>"
proof -
  from map_err_member [OF assms [unfolded extract_flags_def]]
  obtain r where r: "r \<in> set df"
    and e: "and_then (join_flags (flags r)) (\<lambda>x. Inr (r\<lparr>flags := x\<rparr>)) = Inr r'"
    by blast
  then obtain y where "join_flags (flags r) = Inr y" and "r' = r\<lparr>flags := y\<rparr>"
    by (cases "join_flags (flags r)") auto
  with r show ?thesis by (auto dest: join_flags_not_list)
qed

text \<open>The pattern of every filter step: look for a matching row, and drop the matching
  rows if there is one. It is the same as dropping them without looking.\<close>

lemma detect_then_drop:
  "(if \<exists>r \<in> set df. P r then filter (\<lambda>r. \<not> P r) df else df) = filter (\<lambda>r. \<not> P r) df"
  by (simp add: filter_id_conv)

lemma remove_test_transactions_filter:
  "remove_test_transactions df =
     filter (\<lambda>r. \<not> str_contains ''test'' (flags r) \<and> \<not> str_contains ''sandbox'' (flags r)) df"
proof (cases "(\<exists>r \<in> set df. str_contains ''test'' (flags r)) \<or> (\<exists>r \<in> set df. str_contains ''sandbox'' (flags r))")
  case True
  then show ?thesis
    unfolding remove_test_transactions_def Let_def
    by (simp add: conj_commute)
next
  case False
  then have "filter (\<lambda>r. \<not> str_contains ''test'' (flags r) \<and> \<not> str_contains ''sandbox'' (flags r)) df = df"
    by (simp add: filter_id_conv)
  with False show ?thesis
    unfolding remove_test_transactions_def by simp
qed

text \<open>
  C7: the flag canonicalizer turns every list-valued \<^verbatim>\<open>flags\<close> cell into the
  comma-joined string of its items and passes every other value through unchanged; it
  returns whenever the lists hold strings only. A row with the flags
  \<^verbatim>\<open>["test", "promo"]\<close> gets \<^verbatim>\<open>test,promo\<close>, and no table keeps that row through the
  test-flag filter.
\<close>

theorem flags_canonical:
  "(\<forall>out. extract_flags df = Inr out \<longrightarrow>
      length out = length df \<and>
      (\<forall>i < length df.
         (\<forall>xs. flags (df ! i) = PList xs \<longrightarrow>
            (\<exists>ss. xs = map PStr ss \<and> out ! i = (df ! i)\<lparr>flags := PStr (join '','' ss)\<rparr>))
         \<and> (\<not> is_list (flags (df ! i)) \<longrightarrow> out ! i = df ! i)))
   \<and> ((\<forall>r \<in> set df. \<forall>xs. flags r = PList xs \<longrightarrow> (\<exists>ss. xs = map PStr ss)) \<longrightarrow>
        (\<exists>out. extract_flags df = Inr out))
   \<and> extract_flags [r\<lparr>flags := PList [PStr ''test'', PStr ''promo'']\<rparr>] = Inr [r\<lparr>flags := PStr ''test,promo''\<rparr>]
   \<and> r\<lparr>flags := PStr ''test,promo''\<rparr> \<notin> set (remove_test_transactions (df' @ [r\<lparr>flags := PStr ''test,promo''\<rparr>] @ df''))"
proof (intro conjI allI impI)
  fix out
  assume "extract_flags df = Inr out"
  then have m: "map (\<lambda>r. and_then (join_flags (flags r)) (\<lambda>x. Inr (r\<lparr>flags := x\<rparr>))) df = map Inr out"
    by (simp add: extract_flags_def map_err_Inr_iff)
  from arg_cong [OF m, of length] show len: "length out = length df" by simp
  fix i
  assume i: "i < length df"
  from arg_cong [OF m, of "\<lambda>l. l ! i"] i len
  have e: "and_then (join_flags (flags (df ! i))) (\<lambda>x. Inr ((df ! i)\<lparr>flags := x\<rparr>)) = Inr (out ! i)"
    by simp
  then obtain y where y: "join_flags (flags (df ! i)) = Inr y" and o: "out ! i = (df ! i)\<lparr>flags := y\<rparr>"
    by (cases "join_flags (flags (df ! i))") auto
  show "\<exists>ss. xs = map PStr ss \<and> out ! i = (df ! i)\<lparr>flags := PStr (join '','' ss)\<rparr>"
    if "flags (df ! i) = PList xs" for xs
    using y o that by (auto simp: join_flags_list)
  show "out ! i = df ! i" if "\<not> is_list (flags (df ! i))"
    using y o that by (simp add: join_flags_other)
next
  assume typed: "\<forall>r \<in> set df. \<forall>xs. flags r = PList xs \<longrightarrow> (\<exists>ss. xs = map PStr ss)"
  have jf: "\<exists>y. join_flags (flags r) = Inr y" if "r \<in> set df" for r
  proof (cases "is_list (flags r)")
    case True
    then obtain xs where "flags r = PList xs" by (cases "flags r") simp_all
    with typed that show ?thesis by (auto simp: join_flags_list)
  next
    case False
    then show ?thesis by (simp add: join_flags_other)
  qed
  have "\<exists>z. and_then (join_flags (flags r)) (\<lambda>x. Inr (r\<lparr>flags := x\<rparr>)) = Inr z"
    if "r \<in> set df" for r
    using jf [OF that] by auto
  then have "\<forall>r \<in> set df. \<exists>z. and_then (join_flags (flags r)) (\<lambda>x. Inr (r\<lparr>flags := x\<rparr>)) = Inr z"
    by blast
  then show "\<exists>out. extract_flags df = Inr out"
    unfolding extract_flags_def by (rule map_err_total)
next
  show "extract_flags [r\<lparr>flags := PList [PStr ''test'', PStr ''promo'']\<rparr>] = Inr [r\<lparr>flags := PStr ''test,promo''\<rparr>]"
    by (simp add: extract_flags_def join_flags_def)
next
  show "r\<lparr>flags := PStr ''test,promo''\<rparr> \<notin> set (remove_test_transactions (df' @ [r\<lparr>flags := PStr ''test,promo''\<rparr>] @ df''))"
    by (simp add: remove_test_transactions_filter)
qed

theorem flags_canonical_witness:
  "extract_flags [row_paid (PList [PStr ''test'', PStr ''promo'']), row_paid (PStr ''normal''), row_paid PNone]
     = Inr [row_paid (PStr ''test,promo''), row_paid (PStr ''normal''), row_paid PNone]
   \<and> remove_test_transactions [row_paid (PStr ''test,promo''), row_paid (PStr ''normal''), row_paid PNone]
     = [row_paid (PStr ''normal''), row_paid PNone]"
proof -
  let ?df = "[row_paid (PList [PStr ''test'', PStr ''promo'']), row_paid (PStr ''normal''), row_paid PNone]"
  have e: "extract_flags ?df = Inr [row_paid (PStr ''test,promo''), row_paid (PStr ''normal''), row_paid PNone]"
    by code_simp
  have r: "remove_test_transactions [row_paid (PStr ''test,promo''), row_paid (PStr ''normal''), row_paid PNone]
     = [row_paid (PStr ''normal''), row_paid PNone]"
    by code_simp
  from flags_canonical [of ?df "row_paid PNone" "[]" "[row_paid (PStr ''normal''), row_paid PNone]"] e r
  show ?thesis
    by blast
qed

section \<open>Properties of duplicate removal\<close>

lemma length_duplicated_from [simp]: "length (duplicated_from seen ks) = length ks"
  by (induction ks arbitrary: seen) simp_all

lemma duplicated_from_nth:
  "i < length ks \<Longrightarrow>
     duplicated_from seen ks ! i \<longleftrightarrow> ks ! i \<in> set seen \<or> (\<exists>j<i. ks ! j = ks ! i)"
proof (induction ks arbitrary: seen i)
  case Nil
  then show ?case by simp
next
  case (Cons k ks)
  show ?case
  proof (cases i)
    case 0
    then show ?thesis by simp
  next
    case (Suc n)
    with Cons.prems have n: "n < length ks" by simp
    have "(\<exists>j<Suc n. (k # ks) ! j = ks ! n) \<longleftrightarrow> k = ks ! n \<or> (\<exists>j<n. ks ! j = ks ! n)"
      by (auto simp: less_Suc_eq_0_disj)
    with Cons.IH [OF n, of "k # seen"] Suc show ?thesis by auto
  qed
qed

lemma kept_Nil [simp]: "kept seen f [] = []"
  by (simp add: kept_def)

lemma kept_Cons [simp]:
  "kept seen f (x # xs) =
     (if f x \<in> set seen then kept (f x # seen) f xs else x # kept (f x # seen) f xs)"
  by (simp add: kept_def)

lemma set_kept: "f ` set (kept seen f xs) = f ` set xs - set seen"
  by (induction xs arbitrary: seen) auto

lemma kept_subset: "set (kept seen f xs) \<subseteq> set xs"
  by (induction xs arbitrary: seen) auto

lemma distinct_kept: "distinct (map f (kept seen f xs))"
proof (induction xs arbitrary: seen)
  case Nil
  show ?case by simp
next
  case (Cons x xs)
  have "f x \<notin> f ` set (kept (f x # seen) f xs)"
    by (simp add: set_kept)
  with Cons.IH show ?case by auto
qed

lemma kept_all: "\<not> True \<in> set (duplicated_from seen (map f xs)) \<Longrightarrow> kept seen f xs = xs"
  by (induction xs arbitrary: seen) (auto split: if_splits)

lemma kept_distinct:
  assumes "distinct (map f xs)" and "set seen \<inter> f ` set xs = {}"
  shows "kept seen f xs = xs"
  using assms by (induction xs arbitrary: seen) auto

lemma distinct_count_one:
  assumes "distinct (map f ys)" and "y \<in> set ys"
  shows "length (filter (\<lambda>z. f z = f y) ys) = 1"
  using assms
proof (induction ys)
  case Nil
  then show ?case by simp
next
  case (Cons z ys)
  show ?case
  proof (cases "f z = f y")
    case True
    with Cons.prems(1) have "f y \<notin> f ` set ys" by simp
    then have "\<forall>w \<in> set ys. f w \<noteq> f y" by (metis imageI)
    then have "filter (\<lambda>w. f w = f y) ys = []" by (simp add: filter_empty_conv)
    with True show ?thesis by simp
  next
    case False
    with Cons.prems have "y \<in> set ys" and "distinct (map f ys)" by auto
    with Cons.IH False show ?thesis by simp
  qed
qed

text \<open>\<^verbatim>\<open>drop_duplicates\<close> returns on a table whose cells can all be hashed, and what it
  returns is the rows that are not marked, whether or not a row is marked at all.\<close>

lemma drop_duplicates_kept:
  "drop_duplicates df = Inr out \<longleftrightarrow>
     (\<forall>r \<in> set df. list_all hashable (row_cells r)) \<and> out = kept [] row_key df"
proof (cases "\<forall>r \<in> set df. list_all hashable (row_cells r)")
  case False
  then show ?thesis by (auto simp: drop_duplicates_def list_all_iff)
next
  case True
  then have h: "\<not> (\<exists>r \<in> set df. \<exists>c \<in> set (row_cells r). \<not> hashable c)"
    by (auto simp: list_all_iff)
  show ?thesis
  proof (cases "True \<in> set (duplicated df)")
    case dup: True
    with h True show ?thesis
      by (auto simp: drop_duplicates_def kept_def duplicated_def)
  next
    case nodup: False
    then have "kept [] row_key df = df"
      by (simp add: duplicated_def kept_all)
    with h True nodup show ?thesis
      by (auto simp: drop_duplicates_def)
  qed
qed

lemma kept_nths:
  "kept [] f xs = nths xs {i. \<forall>j<i. f (xs ! j) \<noteq> f (xs ! i)}"
proof -
  let ?n = "length xs"
  let ?P = "\<lambda>i. \<exists>j<i. f (xs ! j) = f (xs ! i)"
  have dup: "duplicated_from [] (map f xs) = map ?P [0..<?n]"
  proof (rule nth_equalityI)
    show "length (duplicated_from [] (map f xs)) = length (map ?P [0..<?n])" by simp
  next
    fix i
    assume "i < length (duplicated_from [] (map f xs))"
    then have i: "i < ?n" by simp
    then have "duplicated_from [] (map f xs) ! i \<longleftrightarrow> (\<exists>j<i. map f xs ! j = map f xs ! i)"
      by (simp add: duplicated_from_nth)
    also have "\<dots> \<longleftrightarrow> ?P i" using i by auto
    finally show "duplicated_from [] (map f xs) ! i = map ?P [0..<?n] ! i"
      using i by simp
  qed
  have "zip xs (map ?P [0..<?n]) = map (\<lambda>(r, i). (r, ?P i)) (zip xs [0..<?n])"
    by (simp add: zip_map2)
  then have "kept [] f xs = map fst (filter (\<lambda>(r, i). \<not> ?P i) (zip xs [0..<?n]))"
    by (simp add: kept_def dup filter_map comp_def case_prod_unfold)
  also have "\<dots> = nths xs {i. \<forall>j<i. f (xs ! j) \<noteq> f (xs ! i)}"
    by (simp add: nths_def case_prod_unfold)
  finally show ?thesis .
qed

text \<open>
  C8: duplicate removal drops every row that equals an earlier row in all fields and
  keeps the first occurrence, so every group of equal rows is left with exactly one row.
  Whenever it returns, the result is the rows that no earlier row equals, in order; each
  row of the input has exactly one row equal to it in the result; no row occurs twice.
  Rows are equal when their keys are: cell by cell as pandas compares them. It returns
  on every table whose cells can be hashed.
\<close>

theorem duplicates_collapse:
  "(\<forall>out. drop_duplicates df = Inr out \<longrightarrow>
      out = nths df {i. \<forall>j<i. row_key (df ! j) \<noteq> row_key (df ! i)}
      \<and> (\<forall>r \<in> set df. length (filter (\<lambda>r'. row_key r' = row_key r) out) = 1)
      \<and> distinct out)
   \<and> ((\<forall>r \<in> set df. list_all hashable (row_cells r)) \<longrightarrow> (\<exists>out. drop_duplicates df = Inr out))"
proof (intro conjI allI impI)
  fix out
  assume "drop_duplicates df = Inr out"
  then have out: "out = kept [] row_key df" by (simp add: drop_duplicates_kept)
  then show "out = nths df {i. \<forall>j<i. row_key (df ! j) \<noteq> row_key (df ! i)}"
    by (simp add: kept_nths)
  have d: "distinct (map row_key out)" by (simp add: out distinct_kept)
  then show "distinct out" by (simp add: distinct_map)
  show "\<forall>r \<in> set df. length (filter (\<lambda>r'. row_key r' = row_key r) out) = 1"
  proof
    fix r
    assume "r \<in> set df"
    then have "row_key r \<in> row_key ` set out"
      by (simp add: out set_kept)
    then obtain y where y: "y \<in> set out" and "row_key y = row_key r" by auto
    with distinct_count_one [OF d y] show "length (filter (\<lambda>r'. row_key r' = row_key r) out) = 1"
      by simp
  qed
next
  assume "\<forall>r \<in> set df. list_all hashable (row_cells r)"
  then show "\<exists>out. drop_duplicates df = Inr out"
    by (simp add: drop_duplicates_kept)
qed

theorem duplicates_collapse_witness:
  "drop_duplicates [row_paid (PStr ''normal''), row_paid (PStr ''promo''), row_paid (PStr ''normal''),
                    row_paid (PStr ''promo''), row_paid (PStr ''normal'')]
     = Inr [row_paid (PStr ''normal''), row_paid (PStr ''promo'')]
   \<and> length (filter (\<lambda>r'. row_key r' = row_key (row_paid (PStr ''promo'')))
               [row_paid (PStr ''normal''), row_paid (PStr ''promo'')]) = 1
   \<and> distinct [row_paid (PStr ''normal''), row_paid (PStr ''promo'')]"
proof -
  let ?df = "[row_paid (PStr ''normal''), row_paid (PStr ''promo''), row_paid (PStr ''normal''),
              row_paid (PStr ''promo''), row_paid (PStr ''normal'')]"
  have e: "drop_duplicates ?df = Inr [row_paid (PStr ''normal''), row_paid (PStr ''promo'')]"
    by code_simp
  have m: "row_paid (PStr ''promo'') \<in> set ?df" by simp
  from duplicates_collapse [of ?df] e m show ?thesis
    by blast
qed

section \<open>Properties of the filter chain and of the pipeline\<close>

lemma clean_transactions_filter:
  "clean_transactions df = filter (\<lambda>r. \<not> isna (order_id r) \<and> \<not> isna (payment_id r)) df"
  unfolding clean_transactions_def Let_def detect_then_drop
  by (simp add: conj_commute)

lemma remove_null_amounts_filter:
  "remove_null_amounts df = filter (\<lambda>r. amount_usd r \<noteq> NaN) df"
  unfolding remove_null_amounts_def by (rule detect_then_drop)

lemma remove_zero_amounts_filter:
  "remove_zero_amounts df = filter (\<lambda>r. \<not> feq (amount_usd r) 0) df"
  unfolding remove_zero_amounts_def by (rule detect_then_drop)

lemma drop_failed_pending_payments_filter:
  "drop_failed_pending_payments df = filter (\<lambda>r. \<not> failed_or_pending (payment_status r)) df"
  unfolding drop_failed_pending_payments_def by (rule detect_then_drop)

lemma fill_na_flags_map:
  "fill_na_flags df = map (\<lambda>r. if isna (flags r) then r\<lparr>flags := PStr ''normal''\<rparr> else r) df"
proof (cases "\<exists>r \<in> set df. isna (flags r)")
  case True
  then show ?thesis by (simp add: fill_na_flags_def)
next
  case False
  then have "map (\<lambda>r. if isna (flags r) then r\<lparr>flags := PStr ''normal''\<rparr> else r) df = df"
    by (intro map_idI) simp
  with False show ?thesis by (simp add: fill_na_flags_def)
qed

lemma filter_chain_row:
  assumes "filter_chain df = Inr out" and "r' \<in> set out"
  shows "\<exists>r \<in> set df. r' = (if isna (flags r) then r\<lparr>flags := PStr ''normal''\<rparr> else r)
           \<and> \<not> failed_or_pending (payment_status r)
           \<and> \<not> str_contains ''test'' (flags r) \<and> \<not> str_contains ''sandbox'' (flags r)
           \<and> amount_usd r \<noteq> NaN \<and> \<not> feq (amount_usd r) 0
           \<and> list_all hashable (row_cells r)"
proof -
  let ?d = "drop_failed_pending_payments (remove_zero_amounts (remove_null_amounts (remove_test_transactions df)))"
  from assms(1) obtain d8 where dd: "drop_duplicates ?d = Inr d8" and out: "out = fill_na_flags d8"
    by (cases "drop_duplicates ?d") (auto simp: filter_chain_def Let_def)
  from dd have h: "\<forall>r \<in> set ?d. list_all hashable (row_cells r)" and d8: "d8 = kept [] row_key ?d"
    by (simp_all add: drop_duplicates_kept)
  from assms(2) out obtain r where r: "r \<in> set d8"
    and r': "r' = (if isna (flags r) then r\<lparr>flags := PStr ''normal''\<rparr> else r)"
    by (auto simp: fill_na_flags_map)
  from r d8 have rd: "r \<in> set ?d" using kept_subset by fastforce
  then have "r \<in> set df" and "\<not> failed_or_pending (payment_status r)"
    and "\<not> str_contains ''test'' (flags r)" and "\<not> str_contains ''sandbox'' (flags r)"
    and "amount_usd r \<noteq> NaN" and "\<not> feq (amount_usd r) 0"
    by (simp_all add: drop_failed_pending_payments_filter remove_zero_amounts_filter
        remove_null_amounts_filter remove_test_transactions_filter)
  with r' h rd show ?thesis by blast
qed

text \<open>
  The end-to-end scenario of the specification: of five events, one is a heartbeat, one
  has no payment id, one has the amount \<^verbatim>\<open>1000\<close> without a currency marker, one has
  failed, and one is valid with the flags \<^verbatim>\<open>normal\<close> and the amount \<^verbatim>\<open>25.00\<close>. Two
  rows survive, with the amounts 10.00 and 25.00.
\<close>

lemma end_to_end_scenario:
  "snd (getting_relevant_data
     [event_order ''heartbeat'' (PStr ''p-0'') (PStr ''1'') (PStr ''SUCCESS'') (PList []),
      event_order ''payment'' PNone (PStr ''30.00'') (PStr ''SUCCESS'') (PList []),
      event_order ''payment'' (PStr ''p-2'') (PStr ''1000'') (PStr ''SUCCESS'') (PList []),
      event_order ''payment'' (PStr ''p-3'') (PStr ''7.00'') (PStr ''FAILED'') (PList []),
      event_order ''payment'' (PStr ''p-4'') (PStr ''25.00'') (PStr ''SUCCESS'') (PStr ''normal'')])
     = Some [record_order PNone (PStr ''30.00'') (PStr ''SUCCESS'') (PList []),
             record_order (PStr ''p-2'') (PStr ''1000'') (PStr ''SUCCESS'') (PList []),
             record_order (PStr ''p-3'') (PStr ''7.00'') (PStr ''FAILED'') (PList []),
             record_order (PStr ''p-4'') (PStr ''25.00'') (PStr ''SUCCESS'') (PStr ''normal'')]
   \<and> clean_pipeline
       [record_order PNone (PStr ''30.00'') (PStr ''SUCCESS'') (PList []),
        record_order (PStr ''p-2'') (PStr ''1000'') (PStr ''SUCCESS'') (PList []),
        record_order (PStr ''p-3'') (PStr ''7.00'') (PStr ''FAILED'') (PList []),
        record_order (PStr ''p-4'') (PStr ''25.00'') (PStr ''SUCCESS'') (PStr ''normal'')]
     = Inr [with_amount_usd (record_order (PStr ''p-2'') (PStr ''1000'') (PStr ''SUCCESS'') (PStr [])) (Num 10),
            with_amount_usd (record_order (PStr ''p-4'') (PStr ''25.00'') (PStr ''SUCCESS'') (PStr ''normal'')) (Num 25)]"
  by code_simp

text \<open>
  What every run of the pipeline that completes does guarantee for each surviving row:
  the two identifiers are not null, \<^verbatim>\<open>amount_usd\<close> is greater than zero, the payment
  status is neither \<^verbatim>\<open>FAILED\<close> nor \<^verbatim>\<open>PENDING\<close>, and the flags are neither null nor a
  list or dictionary.
\<close>

lemma clean_pipeline_invariants:
  assumes "clean_pipeline df = Inr out" and "r \<in> set out"
  shows "\<not> isna (order_id r) \<and> \<not> isna (payment_id r) \<and> fgt (amount_usd r) 0
       \<and> \<not> failed_or_pending (payment_status r) \<and> \<not> isna (flags r) \<and> hashable (flags r)"
proof -
  from assms(1) obtain d2 d3 where n: "normalize_amount (clean_transactions df) = Inr d2"
    and x: "extract_flags d2 = Inr d3" and c: "filter_chain d3 = Inr out"
    by (auto simp: clean_pipeline_def and_then_Inr_iff)
  from filter_chain_row [OF c assms(2)] obtain r3 where r3: "r3 \<in> set d3"
    and r: "r = (if isna (flags r3) then r3\<lparr>flags := PStr ''normal''\<rparr> else r3)"
    and st: "\<not> failed_or_pending (payment_status r3)"
    and hs: "list_all hashable (row_cells r3)"
    by blast
  from extract_flags_row [OF x r3] obtain r2 y where r2: "r2 \<in> set d2" and r3': "r3 = r2\<lparr>flags := y\<rparr>"
    by blast
  from normalize_amount_row [OF n r2] obtain t u where pos: "fgt (amount_usd r2) 0"
    and t: "t \<in> set (clean_transactions df)" and r2': "r2 = with_amount_usd t u"
    by blast
  from t have ids: "\<not> isna (order_id t)" "\<not> isna (payment_id t)"
    by (simp_all add: clean_transactions_filter)
  from hs have "hashable (flags r3)" by (simp add: row_cells_def)
  with r r3' r2' pos ids st show ?thesis
    by (auto simp: isna_def)
qed

text \<open>
  C1 (the code breaks it): after the full pipeline no two surviving records should be
  identical. Two events that differ only in their flags, \<^verbatim>\<open>null\<close> in one and
  \<^verbatim>\<open>["normal"]\<close> in the other, are extracted to two records; duplicate removal keeps
  both, because \<^verbatim>\<open>None\<close> and \<^verbatim>\<open>normal\<close> differ when it runs, and the fill of null flags
  that follows it makes the two rows identical.
\<close>

theorem pipeline_leaves_identical_rows:
  "snd (getting_relevant_data [event_paid PNone, event_paid (PList [PStr ''normal''])])
     = Some [record_paid PNone, record_paid (PList [PStr ''normal''])]
   \<and> clean_pipeline [record_paid PNone, record_paid (PList [PStr ''normal''])]
     = Inr [row_paid (PStr ''normal''), row_paid (PStr ''normal'')]"
  by code_simp

text \<open>
  What a second run of the chain does to the output \<open>X\<close> of a first run: none of the
  filters removes a row, and duplicate removal keeps the first of the rows that the fill
  of the first run made equal. When the first run met no null flags, the second run
  returns \<open>X\<close> as it is.
\<close>

lemma filter_chain_second_run:
  assumes "filter_chain df = Inr X"
  shows "filter_chain X = Inr (kept [] row_key X)"
proof -
  have props: "\<not> str_contains ''test'' (flags r') \<and> \<not> str_contains ''sandbox'' (flags r')
      \<and> amount_usd r' \<noteq> NaN \<and> \<not> feq (amount_usd r') 0
      \<and> \<not> failed_or_pending (payment_status r') \<and> \<not> isna (flags r')
      \<and> list_all hashable (row_cells r')" if "r' \<in> set X" for r'
  proof -
    from filter_chain_row [OF assms that] obtain r where
      r': "r' = (if isna (flags r) then r\<lparr>flags := PStr ''normal''\<rparr> else r)"
      and "\<not> failed_or_pending (payment_status r)"
      and "\<not> str_contains ''test'' (flags r)" and "\<not> str_contains ''sandbox'' (flags r)"
      and "amount_usd r \<noteq> NaN" and "\<not> feq (amount_usd r) 0"
      and "list_all hashable (row_cells r)"
      by blast
    then show ?thesis
      by (cases "isna (flags r)") (simp_all add: row_cells_def isna_def)
  qed
  then have "remove_test_transactions X = X"
    by (simp add: remove_test_transactions_filter filter_id_conv)
  moreover from props have "remove_null_amounts X = X"
    by (simp add: remove_null_amounts_filter filter_id_conv)
  moreover from props have "remove_zero_amounts X = X"
    by (simp add: remove_zero_amounts_filter filter_id_conv)
  moreover from props have "drop_failed_pending_payments X = X"
    by (simp add: drop_failed_pending_payments_filter filter_id_conv)
  moreover from props have "drop_duplicates X = Inr (kept [] row_key X)"
    by (simp add: drop_duplicates_kept)
  moreover have "fill_na_flags (kept [] row_key X) = kept [] row_key X"
  proof -
    have "\<forall>r \<in> set (kept [] row_key X). \<not> isna (flags r)"
      using props kept_subset [of "[]" row_key X] by blast
    then show ?thesis by (simp add: fill_na_flags_def)
  qed
  ultimately show ?thesis
    by (simp add: filter_chain_def)
qed

lemma filter_chain_idempotent_without_null_flags:
  assumes "filter_chain df = Inr X" and "\<forall>r \<in> set df. \<not> isna (flags r)"
  shows "filter_chain X = Inr X"
proof -
  let ?d = "drop_failed_pending_payments (remove_zero_amounts (remove_null_amounts (remove_test_transactions df)))"
  from assms(1) obtain d8 where dd: "drop_duplicates ?d = Inr d8" and out: "X = fill_na_flags d8"
    by (cases "drop_duplicates ?d") (auto simp: filter_chain_def Let_def)
  from dd have d8: "d8 = kept [] row_key ?d" by (simp add: drop_duplicates_kept)
  have "set d8 \<subseteq> set df"
    using kept_subset [of "[]" row_key ?d]
    by (auto simp: d8 drop_failed_pending_payments_filter remove_zero_amounts_filter
        remove_null_amounts_filter remove_test_transactions_filter)
  with assms(2) have "\<forall>r \<in> set d8. \<not> isna (flags r)" by blast
  then have "X = d8" by (simp add: out fill_na_flags_def)
  then have "distinct (map row_key X)" by (simp add: d8 distinct_kept)
  then have "kept [] row_key X = X" by (simp add: kept_distinct)
  with filter_chain_second_run [OF assms(1)] show ?thesis by simp
qed

text \<open>
  C2 (the code breaks it): a second run of the filter chain on the output of a first run
  should return it unchanged. On the two rows above the first run returns two identical
  rows, and the second run removes one of them.
\<close>

theorem filter_chain_second_run_drops_a_row:
  "filter_chain [row_paid PNone, row_paid (PStr ''normal'')]
     = Inr [row_paid (PStr ''normal''), row_paid (PStr ''normal'')]
   \<and> filter_chain [row_paid (PStr ''normal''), row_paid (PStr ''normal'')]
     = Inr [row_paid (PStr ''normal'')]"
  by code_simp

end
